theory Spec2Isabelle
  imports Main
begin

section \<open>Values, errors and the external collaborators of watchmedo\<close>

text \<open>
  The values that reach \<^verbatim>\<open>watchmedo.py\<close> from a YAML configuration or from a handler
  attribute. Only their shape and their truth value matter to the code.
\<close>

datatype pyval =
    PNone
  | PBool bool
  | PInt int
  | PStr string
  | PList "pyval list"
  | PDict "(string \<times> pyval) list"

text \<open>Python's truth value: what \<^verbatim>\<open>x or y\<close> tests on \<^verbatim>\<open>x\<close>.\<close>

fun truthy :: "pyval \<Rightarrow> bool" where
  "truthy PNone = False"
| "truthy (PBool b) = b"
| "truthy (PInt i) = (i \<noteq> 0)"
| "truthy (PStr s) = (s \<noteq> [])"
| "truthy (PList xs) = (xs \<noteq> [])"
| "truthy (PDict kvs) = (kvs \<noteq> [])"

text \<open>\<^verbatim>\<open>x or y\<close>: the left operand when it is truthy, the right one otherwise.\<close>

definition py_or :: "pyval \<Rightarrow> pyval \<Rightarrow> pyval" where
  "py_or x y = (if truthy x then x else y)"

text \<open>
  Every exception the modelled code raises or lets through. The payload is the message
  or the offending name.
\<close>

datatype error =
    ImportError string
  | AttributeError string
  | TypeError string
  | ValueError string
  | KeyError string
  | OSError string
  | RuntimeError string
  | WatchdogShutdown
  | KeyboardInterrupt

text \<open>
  A constructed trick (event handler). \<open>source_directory\<close> is the optional attribute
  that \<^verbatim>\<open>schedule_tricks\<close> reads with \<^verbatim>\<open>getattr(handler, 'source_directory', None)\<close>:
  \<open>None\<close> here means the object has no such attribute.
\<close>

record handler =
  class_name :: string
  init_kwargs :: "(string \<times> pyval) list"
  source_directory :: "pyval option"

text \<open>
  A trick class is what \<^verbatim>\<open>load_class\<close> returns: called with keyword arguments it
  builds a handler or raises. \<^verbatim>\<open>load_class\<close> itself lives in \<^verbatim>\<open>watchdog.utils\<close>;
  it is a parameter of the model: a name resolves to a class or raises.
\<close>

type_synonym trick_class = "(string \<times> pyval) list \<Rightarrow> error + handler"

type_synonym loader = "string \<Rightarrow> error + trick_class"

text \<open>\<^verbatim>\<open>getattr(obj, 'source_directory', None)\<close>: the default when the attribute is absent.\<close>

definition getattr_source_directory :: "handler \<Rightarrow> pyval \<Rightarrow> pyval" where
  "getattr_source_directory h dflt =
     (case source_directory h of None \<Rightarrow> dflt | Some v \<Rightarrow> v)"

text \<open>
  \<^verbatim>\<open>TrickClass(**value)\<close>: the double-star call needs a mapping; any other value
  (for instance \<^verbatim>\<open>None\<close>, what YAML gives for an entry without parameters) is a
  \<^verbatim>\<open>TypeError\<close> raised before the class is entered. The mapping is handed over whole.
\<close>

fun call_with_kwargs :: "trick_class \<Rightarrow> pyval \<Rightarrow> error + handler" where
  "call_with_kwargs cls (PDict kwargs) = cls kwargs"
| "call_with_kwargs cls v = Inl (TypeError ''argument after ** must be a mapping'')"

text \<open>A registered watch: the triple handed to \<^verbatim>\<open>observer.schedule\<close>.\<close>

record watch =
  w_handler :: handler
  w_path :: pyval
  w_recursive :: bool

text \<open>
  The observer as this file sees it: the watches scheduled on it so far, in the order
  of the calls, an identity, and whether \<^verbatim>\<open>start()\<close> has been called.
\<close>

record observer =
  obs_id :: nat
  watches :: "watch list"
  started :: bool

definition new_observer :: "nat \<Rightarrow> observer" where
  "new_observer i = \<lparr>obs_id = i, watches = [], started = False\<rparr>"

text \<open>
  Modelled from the spec: \<^verbatim>\<open>Observer.schedule(handler, path, recursive)\<close> belongs to
  the watch library (\<^verbatim>\<open>watchdog.observers\<close>, not part of this file's source). The
  spec's observer interface \<^verbatim>\<open>schedule(handler, path, recursive) -> WatchHandle\<close> owns
  the registered (handler, path, recursive) watches; the model records each call.
\<close>

definition schedule :: "observer \<Rightarrow> handler \<Rightarrow> pyval \<Rightarrow> bool \<Rightarrow> observer" where
  "schedule obs h path recursive =
     obs\<lparr>watches := watches obs @ [\<lparr>w_handler = h, w_path = path, w_recursive = recursive\<rparr>]\<rparr>"

section \<open>add\_to\_sys\_path and path\_split\<close>

text \<open>
  \<^verbatim>\<open>list.insert(index, x)\<close>: a negative index counts from the end, and an index out
  of range is clamped to the nearest end.
\<close>

definition py_insert :: "'a list \<Rightarrow> int \<Rightarrow> 'a \<Rightarrow> 'a list" where
  "py_insert xs i x =
     (let n = int (length xs);
          j = (if i < 0 then max 0 (i + n) else min i n)
      in take (nat j) xs @ x # drop (nat j) xs)"

text \<open>The loop body of \<^verbatim>\<open>add_to_sys_path\<close>, run over the pathnames it is given.\<close>

fun insert_each :: "string list \<Rightarrow> int \<Rightarrow> string list \<Rightarrow> string list" where
  "insert_each [] index sys_path = sys_path"
| "insert_each (pathname # rest) index sys_path =
     insert_each rest index (py_insert sys_path index pathname)"

text \<open>
  \<^verbatim>\<open>for pathname in pathnames[::-1]: sys.path.insert(index, pathname)\<close>.
  \<open>sys.path\<close> is global state, passed in and returned.
\<close>

definition add_to_sys_path :: "string list \<Rightarrow> int \<Rightarrow> string list \<Rightarrow> string list" where
  "add_to_sys_path pathnames index sys_path = insert_each (rev pathnames) index sys_path"

text \<open>
  \<^verbatim>\<open>str.split(sep)\<close> for a one-character separator: one field more than there are
  separators, empty fields kept.
\<close>

fun py_split :: "char \<Rightarrow> string \<Rightarrow> string list" where
  "py_split sep [] = [[]]"
| "py_split sep (c # cs) =
     (if c = sep then [] # py_split sep cs
      else (case py_split sep cs of
              [] \<Rightarrow> [[c]]
            | w # ws \<Rightarrow> (c # w) # ws))"

text \<open>\<^verbatim>\<open>os.pathsep\<close> on POSIX.\<close>

definition pathsep :: char where
  "pathsep = CHR '':''"

definition path_split :: "string \<Rightarrow> string list" where
  "path_split pathname_spec = py_split pathsep pathname_spec"

section \<open>schedule\_tricks\<close>

text \<open>
  \<^verbatim>\<open>getattr(handler, 'source_directory', None) or pathname\<close>.
\<close>

definition trick_pathname :: "handler \<Rightarrow> string \<Rightarrow> pyval" where
  "trick_pathname h pathname = py_or (getattr_source_directory h PNone) (PStr pathname)"

text \<open>
  Lines 169 and 170: \<^verbatim>\<open>TrickClass = load_class(name)\<close>, then
  \<^verbatim>\<open>handler = TrickClass(**value)\<close>. Either call may raise.
\<close>

definition make_handler :: "loader \<Rightarrow> string \<Rightarrow> pyval \<Rightarrow> error + handler" where
  "make_handler load_class name val =
     (case load_class name of
        Inl e \<Rightarrow> Inl e
      | Inr TrickClass \<Rightarrow> call_with_kwargs TrickClass val)"

text \<open>
  The inner loop \<^verbatim>\<open>for name, value in list(trick.items())\<close>. A trick entry is a
  mapping from a class name to its keyword arguments, kept as an association list in the
  mapping's own order. An exception leaves the loop at once; the observer keeps what was
  scheduled on it before, so the result pairs the observer with the exception, if any.
\<close>

fun schedule_items ::
  "loader \<Rightarrow> observer \<Rightarrow> (string \<times> pyval) list \<Rightarrow> string \<Rightarrow> bool \<Rightarrow> observer \<times> error option"
where
  "schedule_items load_class obs [] pathname recursive = (obs, None)"
| "schedule_items load_class obs ((name, val) # rest) pathname recursive =
     (case make_handler load_class name val of
        Inl e \<Rightarrow> (obs, Some e)
      | Inr h \<Rightarrow>
          schedule_items load_class
            (schedule obs h (trick_pathname h pathname) recursive)
            rest pathname recursive)"

text \<open>The outer loop \<^verbatim>\<open>for trick in tricks\<close>.\<close>

fun schedule_tricks ::
  "loader \<Rightarrow> observer \<Rightarrow> (string \<times> pyval) list list \<Rightarrow> string \<Rightarrow> bool \<Rightarrow> observer \<times> error option"
where
  "schedule_tricks load_class obs [] pathname recursive = (obs, None)"
| "schedule_tricks load_class obs (trick # tricks) pathname recursive =
     (case schedule_items load_class obs trick pathname recursive of
        (obs', Some e) \<Rightarrow> (obs', Some e)
      | (obs', None) \<Rightarrow> schedule_tricks load_class obs' tricks pathname recursive)"

text \<open>
  The watch one pass of the loop body registers for a constructed handler (lines 171
  and 172).
\<close>

definition mk_watch :: "string \<Rightarrow> bool \<Rightarrow> handler \<Rightarrow> watch" where
  "mk_watch pathname recursive h =
     \<lparr>w_handler = h, w_path = trick_pathname h pathname, w_recursive = recursive\<rparr>"

section \<open>Example trick classes\<close>

text \<open>
  Three small trick classes and a loader that knows them, used to run the model on
  concrete configurations. \<open>logger_trick\<close> has no \<^verbatim>\<open>source_directory\<close> attribute;
  \<open>dir_trick\<close> is a class whose \<^verbatim>\<open>__init__(self, source_directory=None, **kw)\<close>
  stores its argument as the attribute; \<open>strict_trick\<close> accepts no keyword at all.
\<close>

definition logger_trick :: trick_class where
  "logger_trick kwargs =
     Inr \<lparr>class_name = ''LoggerTrick'', init_kwargs = kwargs, source_directory = None\<rparr>"

definition dir_trick :: trick_class where
  "dir_trick kwargs =
     Inr \<lparr>class_name = ''DirTrick'', init_kwargs = kwargs,
          source_directory =
            Some (case map_of kwargs ''source_directory'' of None \<Rightarrow> PNone | Some v \<Rightarrow> v)\<rparr>"

definition strict_trick :: trick_class where
  "strict_trick kwargs =
     (if kwargs = []
      then Inr \<lparr>class_name = ''StrictTrick'', init_kwargs = [], source_directory = None\<rparr>
      else Inl (TypeError ''unexpected keyword argument''))"

definition example_loader :: loader where
  "example_loader name =
     (if name = ''LoggerTrick'' then Inr logger_trick
      else if name = ''DirTrick'' then Inr dir_trick
      else if name = ''StrictTrick'' then Inr strict_trick
      else Inl (ImportError name))"

section \<open>The tricks command\<close>

text \<open>
  A parsed configuration file, as far as \<^verbatim>\<open>tricks_from\<close> reads it: the value under
  \<^verbatim>\<open>tricks\<close> (the list of trick entries; \<open>None\<close> when the key is missing) and the
  value under \<^verbatim>\<open>python-path\<close> (\<open>None\<close> when the key is missing).
\<close>

record config =
  cfg_tricks :: "(string \<times> pyval) list list option"
  cfg_python_path :: "string list option"

text \<open>
  The file system and \<^verbatim>\<open>load_config\<close> together, a parameter of the model: \<open>None\<close>
  when \<^verbatim>\<open>os.path.exists\<close> is false, \<open>Some (Inl e)\<close> when reading or parsing the
  file raises \<open>e\<close>, \<open>Some (Inr c)\<close> when it yields the configuration \<open>c\<close>.
\<close>

type_synonym filesystem = "string \<Rightarrow> (error + config) option"

text \<open>
  \<^verbatim>\<open>load_class\<close> imports along \<^verbatim>\<open>sys.path\<close>, so what a name resolves to depends
  on the search path at the time of the call.
\<close>

type_synonym resolver = "string list \<Rightarrow> loader"

text \<open>The observer methods \<^verbatim>\<open>tricks_from\<close> calls besides \<^verbatim>\<open>schedule\<close>.\<close>

datatype obs_op = StartOp | UnscheduleAllOp | StopOp | JoinOp

text \<open>
  These methods belong to the watch library; whether a call on a given observer raises
  is a parameter of the model.
\<close>

type_synonym obs_oracle = "nat \<Rightarrow> obs_op \<Rightarrow> error option"

text \<open>
  What a run does to the world outside, in order: an insertion into \<^verbatim>\<open>sys.path\<close>
  (tagged with where the root came from: the command line, or the configuration file
  with the given index), and a call of an observer method (logged when it is made,
  whether or not it raises).
\<close>

datatype path_origin = Startup | ConfigFile nat

datatype event =
    SysPathInsert path_origin string
  | ObserverCall nat obs_op

text \<open>
  The state a run threads through: the global \<^verbatim>\<open>sys.path\<close>, the local list
  \<^verbatim>\<open>observers\<close> and the log of events.
\<close>

record world =
  sys_path_of :: "string list"
  observers_of :: "observer list"
  trace_of :: "event list"

text \<open>The parsed command line of \<^verbatim>\<open>tricks_from\<close>, without the backend switches.\<close>

record args =
  arg_files :: "string list"
  arg_python_path :: string
  arg_recursive :: bool

text \<open>A call of \<^verbatim>\<open>add_to_sys_path(pathnames)\<close> on the world, one event per insertion.\<close>

definition add_roots :: "path_origin \<Rightarrow> string list \<Rightarrow> world \<Rightarrow> world" where
  "add_roots origin pathnames w =
     w\<lparr>sys_path_of := add_to_sys_path pathnames 0 (sys_path_of w),
       trace_of := trace_of w @ map (SysPathInsert origin) (rev pathnames)\<rparr>"

text \<open>
  \<^verbatim>\<open>posixpath.dirname\<close>: everything up to the last slash, with the trailing
  slashes removed unless nothing else is left.
\<close>

definition dirname :: "string \<Rightarrow> string" where
  "dirname p =
     (let head = rev (dropWhile (\<lambda>c. c \<noteq> CHR ''/'') (rev p))
      in if head \<noteq> [] \<and> \<not> list_all (\<lambda>c. c = CHR ''/'') head
         then rev (dropWhile (\<lambda>c. c = CHR ''/'') (rev head))
         else head)"

text \<open>
  Lines 253 to 255; \<^verbatim>\<open>os.path.relpath(os.getcwd())\<close> is the current directory
  relative to itself.
\<close>

definition dir_path_of :: "string \<Rightarrow> string" where
  "dir_path_of tricks_file =
     (let dir_path = dirname tricks_file in if dir_path = [] then ''.'' else dir_path)"

definition CONFIG_KEY_TRICKS :: string where
  "CONFIG_KEY_TRICKS = ''tricks''"

definition py_repr :: "string \<Rightarrow> string" where
  "py_repr s = CHR 0x27 # s @ [CHR 0x27]"

text \<open>
  The body of \<^verbatim>\<open>for tricks_file in args.files\<close> for the file with index \<open>k\<close>. The
  observer made for it is put on the list only after its \<^verbatim>\<open>start()\<close> has returned.
\<close>

definition process_file ::
  "resolver \<Rightarrow> filesystem \<Rightarrow> obs_oracle \<Rightarrow> bool \<Rightarrow> nat \<Rightarrow> string \<Rightarrow> world \<Rightarrow> world \<times> error option"
where
  "process_file resolve fs fails recursive k tricks_file w =
     (let observer = new_observer k in
      case fs tricks_file of
        None \<Rightarrow> (w, Some (OSError (''No such file or directory: '' @ tricks_file)))
      | Some (Inl e) \<Rightarrow> (w, Some e)
      | Some (Inr config) \<Rightarrow>
          (case cfg_tricks config of
             None \<Rightarrow>
               (w, Some (KeyError (''No '' @ py_repr CONFIG_KEY_TRICKS @
                                   '' key specified in '' @ tricks_file @ ''.'')))
           | Some tricks \<Rightarrow>
               (let w1 = (case cfg_python_path config of
                            None \<Rightarrow> w
                          | Some roots \<Rightarrow> add_roots (ConfigFile k) roots w);
                    dir_path = dir_path_of tricks_file
                in case schedule_tricks (resolve (sys_path_of w1)) observer tricks
                          dir_path recursive of
                     (observer', Some e) \<Rightarrow> (w1, Some e)
                   | (observer', None) \<Rightarrow>
                       (let w2 = w1\<lparr>trace_of := trace_of w1 @ [ObserverCall k StartOp]\<rparr>
                        in case fails k StartOp of
                             Some e \<Rightarrow> (w2, Some e)
                           | None \<Rightarrow>
                               (w2\<lparr>observers_of :=
                                     observers_of w2 @ [observer'\<lparr>started := True\<rparr>]\<rparr>,
                                None)))))"

fun run_files ::
  "resolver \<Rightarrow> filesystem \<Rightarrow> obs_oracle \<Rightarrow> bool \<Rightarrow> nat \<Rightarrow> string list \<Rightarrow> world \<Rightarrow> world \<times> error option"
where
  "run_files resolve fs fails recursive k [] w = (w, None)"
| "run_files resolve fs fails recursive k (tricks_file # rest) w =
     (case process_file resolve fs fails recursive k tricks_file w of
        (w', Some e) \<Rightarrow> (w', Some e)
      | (w', None) \<Rightarrow> run_files resolve fs fails recursive (Suc k) rest w')"

text \<open>
  \<^verbatim>\<open>while True: time.sleep(1)\<close>. The loop has no exit of its own; it ends only when
  an exception is raised while it sleeps. The argument lists what happens in each
  successive sleep: nothing, or an exception raised into it. \<open>None\<close> as result: the
  loop is still running after the sleeps listed.
\<close>

fun wait_for_shutdown :: "error option list \<Rightarrow> error option" where
  "wait_for_shutdown [] = None"
| "wait_for_shutdown (None # ticks) = wait_for_shutdown ticks"
| "wait_for_shutdown (Some e # ticks) = Some e"

text \<open>
  The handler of \<^verbatim>\<open>except WatchdogShutdown\<close>:
  \<^verbatim>\<open>for o in observers: o.unschedule_all(); o.stop()\<close>. No call is guarded.
\<close>

fun stop_observers :: "obs_oracle \<Rightarrow> observer list \<Rightarrow> event list \<Rightarrow> event list \<times> error option" where
  "stop_observers fails [] tr = (tr, None)"
| "stop_observers fails (ob # rest) tr =
     (let tr1 = tr @ [ObserverCall (obs_id ob) UnscheduleAllOp] in
      case fails (obs_id ob) UnscheduleAllOp of
        Some e \<Rightarrow> (tr1, Some e)
      | None \<Rightarrow>
          (let tr2 = tr1 @ [ObserverCall (obs_id ob) StopOp] in
           case fails (obs_id ob) StopOp of
             Some e \<Rightarrow> (tr2, Some e)
           | None \<Rightarrow> stop_observers fails rest tr2))"

text \<open>The last loop: \<^verbatim>\<open>for o in observers: o.join()\<close>.\<close>

fun join_observers :: "obs_oracle \<Rightarrow> observer list \<Rightarrow> event list \<Rightarrow> event list \<times> error option" where
  "join_observers fails [] tr = (tr, None)"
| "join_observers fails (ob # rest) tr =
     (let tr1 = tr @ [ObserverCall (obs_id ob) JoinOp] in
      case fails (obs_id ob) JoinOp of
        Some e \<Rightarrow> (tr1, Some e)
      | None \<Rightarrow> join_observers fails rest tr1)"

text \<open>How a command ends, as far as the model follows it.\<close>

datatype outcome = Returned | Raised error | StillRunning

text \<open>
  Lines 260 to 268, entered with the exception that ended the sleep loop: the
  \<^verbatim>\<open>except\<close> clause runs for \<^verbatim>\<open>WatchdogShutdown\<close> only, and the join loop is reached
  only when the clause ran to its end.
\<close>

definition teardown :: "obs_oracle \<Rightarrow> observer list \<Rightarrow> error \<Rightarrow> event list \<Rightarrow> event list \<times> outcome" where
  "teardown fails obs exc tr =
     (if exc = WatchdogShutdown
      then (case stop_observers fails obs tr of
              (tr1, Some e) \<Rightarrow> (tr1, Raised e)
            | (tr1, None) \<Rightarrow>
                (case join_observers fails obs tr1 of
                   (tr2, Some e) \<Rightarrow> (tr2, Raised e)
                 | (tr2, None) \<Rightarrow> (tr2, Returned)))
      else (tr, Raised exc))"

text \<open>
  \<^verbatim>\<open>tricks_from(args)\<close>, after the choice of the observer class: the startup roots,
  the loop over the files, the sleep loop and the teardown.
\<close>

definition tricks_from ::
  "resolver \<Rightarrow> filesystem \<Rightarrow> obs_oracle \<Rightarrow> args \<Rightarrow> error option list \<Rightarrow> world \<Rightarrow> world \<times> outcome"
where
  "tricks_from resolve fs fails a ticks w =
     (let w1 = add_roots Startup (path_split (arg_python_path a)) w in
      case run_files resolve fs fails (arg_recursive a) 0 (arg_files a) w1 of
        (w2, Some e) \<Rightarrow> (w2, Raised e)
      | (w2, None) \<Rightarrow>
          (case wait_for_shutdown ticks of
             None \<Rightarrow> (w2, StillRunning)
           | Some exc \<Rightarrow>
               (case teardown fails (observers_of w2) exc (trace_of w2) of
                  (tr, out) \<Rightarrow> (w2\<lparr>trace_of := tr\<rparr>, out))))"

text \<open>The observers whose \<^verbatim>\<open>start()\<close> a trace holds, in order.\<close>

fun started_ids :: "event list \<Rightarrow> nat list" where
  "started_ids [] = []"
| "started_ids (ObserverCall k StartOp # tr) = k # started_ids tr"
| "started_ids (ev # tr) = started_ids tr"

text \<open>
  No insertion into the search path after the first \<^verbatim>\<open>start()\<close>; the flag says
  whether a start has been seen.
\<close>

fun no_insert_after_start :: "bool \<Rightarrow> event list \<Rightarrow> bool" where
  "no_insert_after_start seen [] = True"
| "no_insert_after_start seen (SysPathInsert origin p # tr) =
     (\<not> seen \<and> no_insert_after_start seen tr)"
| "no_insert_after_start seen (ObserverCall k StartOp # tr) = no_insert_after_start True tr"
| "no_insert_after_start seen (ev # tr) = no_insert_after_start seen tr"

text \<open>
  Every insertion precedes the start of the observer it belongs to: a startup root is
  inserted while no observer has been started, and a root of file \<open>k\<close> when the
  observers of the files before it, and no others, have been started. The first argument
  lists the observers started so far, the latest first.
\<close>

fun inserts_precede_own_start :: "nat list \<Rightarrow> event list \<Rightarrow> bool" where
  "inserts_precede_own_start st [] = True"
| "inserts_precede_own_start st (SysPathInsert Startup p # tr) =
     (st = [] \<and> inserts_precede_own_start st tr)"
| "inserts_precede_own_start st (SysPathInsert (ConfigFile k) p # tr) =
     (st = rev [0..<k] \<and> inserts_precede_own_start st tr)"
| "inserts_precede_own_start st (ObserverCall k StartOp # tr) =
     inserts_precede_own_start (k # st) tr"
| "inserts_precede_own_start st (ev # tr) = inserts_precede_own_start st tr"

text \<open>The calls the teardown makes: any observer call but \<^verbatim>\<open>start()\<close>.\<close>

fun is_teardown_call :: "event \<Rightarrow> bool" where
  "is_teardown_call (SysPathInsert origin p) = False"
| "is_teardown_call (ObserverCall k StartOp) = False"
| "is_teardown_call (ObserverCall k op) = True"

section \<open>An example environment\<close>

definition example_fs :: filesystem where
  "example_fs f =
     (if f = ''conf/ok.yml''
      then Some (Inr \<lparr>cfg_tricks = Some [[(''LoggerTrick'', PDict [])]],
                     cfg_python_path = None\<rparr>)
      else if f = ''extra.yml''
      then Some (Inr \<lparr>cfg_tricks = Some [[(''PluginTrick'', PDict [])]],
                     cfg_python_path = Some [''lib'', ''vendor'']\<rparr>)
      else if f = ''bad.yml''
      then Some (Inr \<lparr>cfg_tricks = Some [[(''NoSuchTrick'', PDict [])]],
                     cfg_python_path = None\<rparr>)
      else None)"

text \<open>\<open>PluginTrick\<close> is found only when \<open>lib\<close> is on the search path.\<close>

definition example_resolver :: resolver where
  "example_resolver sp name =
     (if name = ''PluginTrick''
      then (if ''lib'' \<in> set sp then Inr logger_trick else Inl (ImportError name))
      else example_loader name)"

definition never_fails :: obs_oracle where
  "never_fails k op = None"

definition stop_fails_on_first :: obs_oracle where
  "stop_fails_on_first k op =
     (if k = 0 \<and> op = StopOp then Some (RuntimeError ''cannot stop'') else None)"

definition empty_world :: world where
  "empty_world = \<lparr>sys_path_of = [''/usr/lib/python3''], observers_of = [], trace_of = []\<rparr>"

section \<open>Termination signals of the auto-restart command\<close>

text \<open>The signals the model tells apart.\<close>

datatype signal = SIGHUP | SIGINT | SIGTERM

text \<open>
  What can be installed for a signal: the system default, ignoring, the interpreter's
  own handler for \<open>SIGINT\<close>, or the function \<^verbatim>\<open>handler_termination_signal\<close>
  defined inside \<^verbatim>\<open>auto_restart\<close>.
\<close>

datatype disposition = SIG_DFL | SIG_IGN | DefaultIntHandler | TerminationHandler

text \<open>
  What the delivery of a signal does to the running command: nothing, an exception
  raised at the point where the main thread stands, or the end of the process.
\<close>

datatype delivery = Discarded | RaisedInMain error | ProcessEnded

text \<open>What the signal machinery does, step by step.\<close>

datatype sig_action = SetDisposition signal disposition | RaiseShutdown

record sig_state =
  disposition_of :: "signal \<Rightarrow> disposition"
  sig_log :: "sig_action list"

text \<open>\<^verbatim>\<open>signal.signal(signum, handler)\<close>.\<close>

definition signal_signal :: "signal \<Rightarrow> disposition \<Rightarrow> sig_state \<Rightarrow> sig_state" where
  "signal_signal signum d st =
     st\<lparr>disposition_of := (disposition_of st)(signum := d),
        sig_log := sig_log st @ [SetDisposition signum d]\<rparr>"

text \<open>
  \<^verbatim>\<open>termination_signals = {signal.SIGTERM, signal.SIGINT}\<close>, in the order a loop
  over the set visits it (CPython keeps small integers in hash order).
\<close>

definition termination_signals :: "signal list" where
  "termination_signals = [SIGINT, SIGTERM]"

text \<open>\<^verbatim>\<open>for signum in termination_signals: signal.signal(signum, d)\<close>.\<close>

fun set_each :: "signal list \<Rightarrow> disposition \<Rightarrow> sig_state \<Rightarrow> sig_state" where
  "set_each [] d st = st"
| "set_each (signum # rest) d st = set_each rest d (signal_signal signum d st)"

text \<open>
  \<^verbatim>\<open>handler_termination_signal(_signum, _frame)\<close>: neuter all termination signals,
  then \<^verbatim>\<open>raise WatchdogShutdown\<close>.
\<close>

definition handler_termination_signal :: "sig_state \<Rightarrow> sig_state \<times> delivery" where
  "handler_termination_signal st =
     (let st1 = set_each termination_signals SIG_IGN st
      in (st1\<lparr>sig_log := sig_log st1 @ [RaiseShutdown]\<rparr>, RaisedInMain WatchdogShutdown))"

text \<open>Lines 609 and 610: the handler is installed for every termination signal.\<close>

definition install_handlers :: "sig_state \<Rightarrow> sig_state" where
  "install_handlers st = set_each termination_signals TerminationHandler st"

text \<open>
  The delivery of one signal to the process, by its current disposition: an ignored
  signal is discarded; the interpreter's handler raises \<^verbatim>\<open>KeyboardInterrupt\<close>; the
  termination handler runs to its end; the system default ends the process.
\<close>

definition deliver :: "signal \<Rightarrow> sig_state \<Rightarrow> sig_state \<times> delivery" where
  "deliver signum st =
     (case disposition_of st signum of
        SIG_IGN \<Rightarrow> (st, Discarded)
      | DefaultIntHandler \<Rightarrow> (st, RaisedInMain KeyboardInterrupt)
      | TerminationHandler \<Rightarrow> handler_termination_signal st
      | SIG_DFL \<Rightarrow> (st, ProcessEnded))"

text \<open>
  A run receives signals one after the other, each delivery finished before the next;
  the result lists what each delivery did. Nothing is delivered to a process that has
  ended.
\<close>

fun deliver_all :: "signal list \<Rightarrow> sig_state \<Rightarrow> sig_state \<times> delivery list" where
  "deliver_all [] st = (st, [])"
| "deliver_all (signum # rest) st =
     (case deliver signum st of
        (st1, ProcessEnded) \<Rightarrow> (st1, [ProcessEnded])
      | (st1, r) \<Rightarrow> (case deliver_all rest st1 of (st2, rs) \<Rightarrow> (st2, r # rs)))"

text \<open>How often the cancellation was raised according to a log.\<close>

definition shutdown_count :: "sig_action list \<Rightarrow> nat" where
  "shutdown_count lg = length (filter (\<lambda>a. a = RaiseShutdown) lg)"

text \<open>The dispositions a Python process starts with.\<close>

definition initial_signals :: sig_state where
  "initial_signals =
     \<lparr>disposition_of = (\<lambda>s. if s = SIGINT then DefaultIntHandler else SIG_DFL),
      sig_log = []\<rparr>"

section \<open>The process supervisor of the auto-restart command\<close>

text \<open>
  \<^verbatim>\<open>auto_restart\<close> builds an \<^verbatim>\<open>AutoRestartTrick\<close>, starts it, hands it to
  the observer and stops it at the end. The class itself is in \<^verbatim>\<open>watchdog.tricks\<close>,
  outside the source under study, so its behaviour is taken from the specification.
\<close>

text \<open>
  What \<^verbatim>\<open>args.kill_after\<close> holds (lines 568 to 572). The option
  \<^verbatim>\<open>--kill-after\<close> is declared with \<^verbatim>\<open>default=10.0\<close> and without a \<^verbatim>\<open>type=\<close>
  (the option \<^verbatim>\<open>--interval\<close> next to it has \<^verbatim>\<open>type=float\<close>), so the argument
  parser keeps the default as the number it is and hands over an explicit value as the
  text that was typed. Time is counted in whole seconds.
\<close>

datatype kill_after_value = Seconds nat | Unconverted string


text \<open>
  Modelled from the spec: the primitive actions of the process supervisor
  (\<^verbatim>\<open>AutoRestartTrick\<close>, which is missing from the source): launching the child with a
  command line, a launch that failed, sending the configured stop signal to a child,
  waiting some time for its voluntary exit, and force-killing it.
\<close>

datatype sup_action =
    Launch nat "string list"
  | LaunchFailed "string list"
  | SendStopSignal nat nat
  | WaitForExit nat nat
  | ForceKill nat

text \<open>
  Modelled from the spec: the behaviour of the children of the missing
  \<^verbatim>\<open>AutoRestartTrick\<close>, a parameter: whether the launch that would create child \<open>n\<close>
  succeeds (a missing executable makes it fail), whether child \<open>n\<close> has already exited
  by the time it is signalled, and how long it takes to exit once signalled (\<open>None\<close>: it
  ignores the stop signal).
\<close>

record child_env =
  can_launch :: "nat \<Rightarrow> bool"
  gone_early :: "nat \<Rightarrow> bool"
  exit_delay :: "nat \<Rightarrow> nat option"

text \<open>
  Modelled from the spec: the state of the missing \<^verbatim>\<open>AutoRestartTrick\<close>
  (SupervisedProcess): the command line, the stop-signal identity, the kill-after
  value as it was handed over, the child it currently owns (\<open>None\<close>: absent), the
  children that are in the running state, the number the next child gets, and the log
  of actions.
\<close>

record supervisor =
  sup_command :: "string list"
  sup_stop_signal :: nat
  sup_kill_after :: kill_after_value
  sup_child :: "nat option"
  sup_running :: "nat list"
  sup_next_pid :: nat
  sup_log :: "sup_action list"

text \<open>
  Lines 614 to 621: the command line is \<^verbatim>\<open>[args.command] + args.command_args\<close>, and
  the handler is built with it, the stop signal (the number lines 593 to 597 obtain
  from \<^verbatim>\<open>args.signal\<close>) and \<^verbatim>\<open>args.kill_after\<close>, which is passed on as it is. No
  child exists yet.
\<close>

definition new_supervisor ::
  "string \<Rightarrow> string list \<Rightarrow> nat \<Rightarrow> kill_after_value \<Rightarrow> supervisor"
where
  "new_supervisor command command_args stop_signal kill_after =
     \<lparr>sup_command = command # command_args, sup_stop_signal = stop_signal,
      sup_kill_after = kill_after, sup_child = None, sup_running = [],
      sup_next_pid = 0, sup_log = []\<rparr>"

text \<open>
  Modelled from the spec: launching the child of the missing \<^verbatim>\<open>AutoRestartTrick\<close>
  with its command line. Inability to launch is an error that is fatal to the session.
\<close>

definition launch :: "child_env \<Rightarrow> supervisor \<Rightarrow> supervisor \<times> error option" where
  "launch env s =
     (let pid = sup_next_pid s in
      if can_launch env pid
      then (s\<lparr>sup_child := Some pid, sup_running := sup_running s @ [pid],
              sup_next_pid := Suc pid,
              sup_log := sup_log s @ [Launch pid (sup_command s)]\<rparr>, None)
      else (s\<lparr>sup_log := sup_log s @ [LaunchFailed (sup_command s)]\<rparr>,
            Some (OSError ''cannot launch the child'')))"

text \<open>
  Modelled from the spec: \<^verbatim>\<open>start()\<close> of the missing \<^verbatim>\<open>AutoRestartTrick\<close>
  launches the child if absent and is a no-op if one is already running.
\<close>

definition start :: "child_env \<Rightarrow> supervisor \<Rightarrow> supervisor \<times> error option" where
  "start env s = (case sup_child s of None \<Rightarrow> launch env s | Some pid \<Rightarrow> (s, None))"

text \<open>
  Modelled from the spec: the graceful-then-forced sequence of the missing
  \<^verbatim>\<open>AutoRestartTrick\<close>, as the list of states after each action, with the exception
  that ends it, if any: send the configured stop signal to the current child, wait up to
  \<open>kill_after\<close> seconds for its voluntary exit, force-kill it if it is still alive.
  Nothing happens when no child is owned. A stop signal that cannot be delivered because
  the child has already exited counts as already stopped. The wait is the first use of
  \<open>kill_after\<close>: a value that is text, not a number, has no deadline, and computing one
  from it is a \<^verbatim>\<open>TypeError\<close>; the stop signal has been sent by then, and the child is
  neither waited for nor killed nor given up.
\<close>

definition stop_steps :: "child_env \<Rightarrow> supervisor \<Rightarrow> supervisor list \<times> error option" where
  "stop_steps env s =
     (case sup_child s of
        None \<Rightarrow> ([], None)
      | Some pid \<Rightarrow>
          (let s1 = s\<lparr>sup_log := sup_log s @ [SendStopSignal pid (sup_stop_signal s)]\<rparr> in
           if gone_early env pid
           then ([s1\<lparr>sup_child := None, sup_running := removeAll pid (sup_running s1)\<rparr>],
                 None)
           else
             (case sup_kill_after s of
                Unconverted text \<Rightarrow>
                  ([s1], Some (TypeError ''unsupported operand type(s) for +: float and str''))
              | Seconds limit \<Rightarrow>
                  (let exited = (case exit_delay env pid of
                                   None \<Rightarrow> False
                                 | Some d \<Rightarrow> d \<le> limit);
                       waited = (case exit_delay env pid of
                                   None \<Rightarrow> limit
                                 | Some d \<Rightarrow> min d limit);
                       s2 = s1\<lparr>sup_log := sup_log s1 @ [WaitForExit pid waited]\<rparr>
                   in if exited
                      then ([s1, s2\<lparr>sup_child := None,
                                     sup_running := removeAll pid (sup_running s2)\<rparr>],
                            None)
                      else ([s1, s2,
                             s2\<lparr>sup_child := None,
                                sup_running := removeAll pid (sup_running s2),
                                sup_log := sup_log s2 @ [ForceKill pid]\<rparr>],
                            None)))))"

text \<open>
  Modelled from the spec: \<^verbatim>\<open>stop()\<close> of the missing \<^verbatim>\<open>AutoRestartTrick\<close>: the
  state the sequence ends in, with its exception, if any; idempotent if nothing is
  running.
\<close>

definition stop :: "child_env \<Rightarrow> supervisor \<Rightarrow> supervisor \<times> error option" where
  "stop env s =
     (case stop_steps env s of
        ([], r) \<Rightarrow> (s, r)
      | (x # xs, r) \<Rightarrow> (last (x # xs), r))"

text \<open>
  Modelled from the spec: \<^verbatim>\<open>restart_on_event\<close> of the missing
  \<^verbatim>\<open>AutoRestartTrick\<close>: the stop sequence on the current child, and only then the
  launch of the replacement with the identical command line; an exception in the stop
  sequence leaves before the launch. The result lists every state passed through, then
  the final state and the exception, if any.
\<close>

definition restart_on_event ::
  "child_env \<Rightarrow> supervisor \<Rightarrow> supervisor list \<times> supervisor \<times> error option"
where
  "restart_on_event env s =
     (case stop env s of
        (s1, Some e) \<Rightarrow> (fst (stop_steps env s), s1, Some e)
      | (s1, None) \<Rightarrow>
          (case launch env s1 of
             (s', r) \<Rightarrow> (fst (stop_steps env s) @ [s'], s', r)))"

text \<open>
  Modelled from the spec: the qualifying events reach the missing
  \<^verbatim>\<open>AutoRestartTrick\<close> one after the other from the observer's dispatch thread; an
  exception raised while handling one is not caught and ends the dispatch, so no
  further restart follows it.
\<close>

fun handle_events ::
  "child_env \<Rightarrow> 'ev list \<Rightarrow> supervisor \<Rightarrow> supervisor list \<times> supervisor \<times> error option"
where
  "handle_events env [] s = ([], s, None)"
| "handle_events env (ev # evs) s =
     (case restart_on_event env s of
        (sts, s1, Some e) \<Rightarrow> (sts, s1, Some e)
      | (sts, s1, None) \<Rightarrow>
          (case handle_events env evs s1 of
             (sts', s2, r) \<Rightarrow> (sts @ sts', s2, r)))"

text \<open>
  Lines 614 to 629 with the supervisor above: build the handler, \<^verbatim>\<open>handler.start()\<close>
  (outside the \<^verbatim>\<open>try\<close>, so a failing first launch ends the command), the events the
  observer dispatches, and \<^verbatim>\<open>handler.stop()\<close> in the \<^verbatim>\<open>finally\<close> clause. The result
  is every state the supervisor passes through, in order, and the exception that
  \<^verbatim>\<open>handler.start()\<close> or the final \<^verbatim>\<open>handler.stop()\<close> raises, if any.
\<close>

definition auto_restart_session ::
  "child_env \<Rightarrow> string \<Rightarrow> string list \<Rightarrow> nat \<Rightarrow> kill_after_value \<Rightarrow> 'ev list
     \<Rightarrow> supervisor list \<times> error option"
where
  "auto_restart_session env command command_args stop_signal kill_after events =
     (let s0 = new_supervisor command command_args stop_signal kill_after in
      case start env s0 of
        (s1, Some e) \<Rightarrow> ([s0, s1], Some e)
      | (s1, None) \<Rightarrow>
          (case handle_events env events s1 of
             (sts, s2, r) \<Rightarrow>
               (case stop_steps env s2 of
                  (final, r') \<Rightarrow> ([s0, s1] @ sts @ final, r'))))"

text \<open>The supervisor owns exactly the children that are running.\<close>

definition owns_running :: "supervisor \<Rightarrow> bool" where
  "owns_running s = (sup_running s = (case sup_child s of None \<Rightarrow> [] | Some pid \<Rightarrow> [pid]))"

text \<open>
  A state \<open>x\<close> reached from \<open>s\<close> owns what is running and has the command line, the
  stop signal and the \<open>kill_after\<close> value of \<open>s\<close>.
\<close>

definition keeps_setup :: "supervisor \<Rightarrow> supervisor \<Rightarrow> bool" where
  "keeps_setup s x =
     (owns_running x \<and> sup_command x = sup_command s
      \<and> sup_stop_signal x = sup_stop_signal s \<and> sup_kill_after x = sup_kill_after s)"


section \<open>Properties of add\_to\_sys\_path\<close>

lemma py_insert_front: "py_insert xs 0 x = x # xs"
  by (simp add: py_insert_def)

lemma insert_each_front: "insert_each ps 0 sp = rev ps @ sp"
  by (induction ps arbitrary: sp) (simp_all add: py_insert_front)

text \<open>
  Claim C8. For every list of search roots, \<open>add_to_sys_path\<close> (with its default index
  0) puts all of them in front of every entry the resolution path had before, in the
  order given: the new path is the roots followed by the old path, so the first root
  is the first entry.
\<close>

theorem add_to_sys_path_prepends:
  "add_to_sys_path pathnames 0 sys_path = pathnames @ sys_path
   \<and> take (length pathnames) (add_to_sys_path pathnames 0 sys_path) = pathnames
   \<and> drop (length pathnames) (add_to_sys_path pathnames 0 sys_path) = sys_path
   \<and> add_to_sys_path (p # pathnames) 0 sys_path ! 0 = p"
  by (simp add: add_to_sys_path_def insert_each_front)

theorem add_to_sys_path_prepends_witness:
  "add_to_sys_path [''a'', ''b''] 0 [''/usr/lib''] = [''a'', ''b'', ''/usr/lib'']"
  using add_to_sys_path_prepends [of "[''a'', ''b'']" "[''/usr/lib'']"] by simp

section \<open>Properties of schedule\_tricks\<close>

lemma schedule_items_append:
  "schedule_items ld obs (xs @ ys) p r =
     (case schedule_items ld obs xs p r of
        (obs', Some e) \<Rightarrow> (obs', Some e)
      | (obs', None) \<Rightarrow> schedule_items ld obs' ys p r)"
  by (induction xs arbitrary: obs) (auto split: sum.splits)

lemma schedule_tricks_concat:
  "schedule_tricks ld obs tricks p r = schedule_items ld obs (concat tricks) p r"
proof (induction tricks arbitrary: obs)
  case Nil
  show ?case by simp
next
  case (Cons t ts)
  show ?case
    by (cases "schedule_items ld obs t p r")
       (auto simp: schedule_items_append Cons.IH split: option.splits)
qed

lemma schedule_items_all_ok:
  "list_all2 (\<lambda>s h. make_handler ld (fst s) (snd s) = Inr h) items hs \<Longrightarrow>
   schedule_items ld obs items p r =
     (obs\<lparr>watches := watches obs @ map (mk_watch p r) hs\<rparr>, None)"
proof (induction items hs arbitrary: obs rule: list_all2_induct)
  case Nil
  show ?case by simp
next
  case (Cons s items h hs)
  obtain name val where s: "s = (name, val)" by (cases s)
  from Cons.hyps(1) s have mh: "make_handler ld name val = Inr h" by simp
  show ?case
    by (simp add: s mh Cons.IH schedule_def mk_watch_def)
qed

lemma schedule_items_fail_at:
  assumes "list_all2 (\<lambda>s h. make_handler ld (fst s) (snd s) = Inr h) pre hs"
    and "make_handler ld name val = Inl e"
  shows "schedule_items ld obs (pre @ (name, val) # post) p r =
     (obs\<lparr>watches := watches obs @ map (mk_watch p r) hs\<rparr>, Some e)"
  by (simp add: schedule_items_append schedule_items_all_ok [OF assms(1)] assms(2))

lemma trick_pathname_cases:
  "trick_pathname h pathname =
     (case source_directory h of
        None \<Rightarrow> PStr pathname
      | Some v \<Rightarrow> if truthy v then v else PStr pathname)"
  by (simp add: trick_pathname_def py_or_def getattr_source_directory_def split: option.splits)

text \<open>
  Claim C1, as amended. Take a list of trick specs, each a single-key entry, all of
  which resolve and construct. Then \<open>schedule_tricks\<close> registers exactly one watch
  per spec, in declaration order, after the watches the observer already had: the
  handler is what the class returns on the spec's whole parameter mapping (nothing is
  checked in between), the path is the handler's \<open>source_directory\<close> when that
  attribute is present and truthy and the default pathname otherwise, and the recursive
  flag is the one given.
\<close>

theorem schedule_tricks_one_watch_per_spec:
  assumes "list_all2 (\<lambda>spec h. make_handler load_class (fst spec) (snd spec) = Inr h) specs hs"
  shows "schedule_tricks load_class obs (map (\<lambda>spec. [spec]) specs) pathname recursive =
           (obs\<lparr>watches := watches obs @
                  map (\<lambda>h. \<lparr>w_handler = h,
                            w_path = (case source_directory h of
                                        None \<Rightarrow> PStr pathname
                                      | Some v \<Rightarrow> if truthy v then v else PStr pathname),
                            w_recursive = recursive\<rparr>) hs\<rparr>,
            None)
         \<and> length hs = length specs
         \<and> (\<forall>name cls kwargs. load_class name = Inr cls \<longrightarrow>
               make_handler load_class name (PDict kwargs) = cls kwargs)"
proof -
  have "concat (map (\<lambda>spec. [spec]) specs) = specs"
    by (induction specs) simp_all
  then have "schedule_tricks load_class obs (map (\<lambda>spec. [spec]) specs) pathname recursive =
      (obs\<lparr>watches := watches obs @ map (mk_watch pathname recursive) hs\<rparr>, None)"
    using schedule_items_all_ok [OF assms] by (simp add: schedule_tricks_concat)
  moreover have "length hs = length specs"
    using assms by (simp add: list_all2_lengthD)
  moreover have "\<forall>name cls kwargs. load_class name = Inr cls \<longrightarrow>
               make_handler load_class name (PDict kwargs) = cls kwargs"
    by (simp add: make_handler_def)
  ultimately show ?thesis
    by (simp add: mk_watch_def trick_pathname_cases cong: map_cong)
qed

theorem schedule_tricks_one_watch_per_spec_witness:
  "schedule_tricks example_loader (new_observer 0)
     [[(''DirTrick'', PDict [(''source_directory'', PStr ''/srv'')])],
      [(''LoggerTrick'', PDict [(''patterns'', PList [PStr ''*.py''])])],
      [(''DirTrick'', PDict [])]]
     ''conf.d'' True =
   (\<lparr>obs_id = 0,
     watches =
       [\<lparr>w_handler = \<lparr>class_name = ''DirTrick'',
                        init_kwargs = [(''source_directory'', PStr ''/srv'')],
                        source_directory = Some (PStr ''/srv'')\<rparr>,
         w_path = PStr ''/srv'', w_recursive = True\<rparr>,
        \<lparr>w_handler = \<lparr>class_name = ''LoggerTrick'',
                        init_kwargs = [(''patterns'', PList [PStr ''*.py''])],
                        source_directory = None\<rparr>,
         w_path = PStr ''conf.d'', w_recursive = True\<rparr>,
        \<lparr>w_handler = \<lparr>class_name = ''DirTrick'', init_kwargs = [],
                        source_directory = Some PNone\<rparr>,
         w_path = PStr ''conf.d'', w_recursive = True\<rparr>],
     started = False\<rparr>,
    None)"
proof -
  let ?specs = "[(''DirTrick'', PDict [(''source_directory'', PStr ''/srv'')]),
                 (''LoggerTrick'', PDict [(''patterns'', PList [PStr ''*.py''])]),
                 (''DirTrick'', PDict [])]"
  let ?hs = "[\<lparr>class_name = ''DirTrick'',
               init_kwargs = [(''source_directory'', PStr ''/srv'')],
               source_directory = Some (PStr ''/srv'')\<rparr>,
              \<lparr>class_name = ''LoggerTrick'',
               init_kwargs = [(''patterns'', PList [PStr ''*.py''])],
               source_directory = None\<rparr>,
              \<lparr>class_name = ''DirTrick'', init_kwargs = [],
               source_directory = Some PNone\<rparr>]"
  have h: "list_all2 (\<lambda>spec h. make_handler example_loader (fst spec) (snd spec) = Inr h) ?specs ?hs"
    by (simp add: make_handler_def example_loader_def dir_trick_def logger_trick_def)
  show ?thesis
    using schedule_tricks_one_watch_per_spec [OF h, of "new_observer 0" "''conf.d''" True]
    by (simp add: new_observer_def)
qed

text \<open>
  The claim as first stated registers a handler at its declared override whenever it
  declares one. A handler that declares the empty string as its source directory is
  registered at the default pathname instead.
\<close>

theorem schedule_tricks_declared_override_counterexample:
  "make_handler example_loader ''DirTrick'' (PDict [(''source_directory'', PStr [])]) =
     Inr \<lparr>class_name = ''DirTrick'', init_kwargs = [(''source_directory'', PStr [])],
          source_directory = Some (PStr [])\<rparr>
   \<and> map w_path (watches (fst (schedule_tricks example_loader (new_observer 0)
          [[(''DirTrick'', PDict [(''source_directory'', PStr [])])]] ''conf.d'' True))) =
       [PStr ''conf.d'']
   \<and> PStr ''conf.d'' \<noteq> PStr []"
  by (simp add: make_handler_def example_loader_def dir_trick_def new_observer_def
      schedule_def trick_pathname_def py_or_def getattr_source_directory_def)

text \<open>
  Claim C6. If the handler of spec N cannot be built (its class does not load, or the
  class raises on its parameters) while the specs before it could, \<open>schedule_tricks\<close>
  ends with that exception; the observer holds its old watches followed by one watch
  for each of the specs before N, in order, and nothing for spec N or any later spec.
\<close>

theorem schedule_tricks_no_rollback:
  assumes "concat tricks = pre @ (name, val) # post"
    and "list_all2 (\<lambda>spec h. make_handler load_class (fst spec) (snd spec) = Inr h) pre hs"
    and "make_handler load_class name val = Inl e"
  shows "schedule_tricks load_class obs tricks pathname recursive =
           (obs\<lparr>watches := watches obs @
                  map (\<lambda>h. \<lparr>w_handler = h, w_path = trick_pathname h pathname,
                            w_recursive = recursive\<rparr>) hs\<rparr>,
            Some e)
         \<and> length hs = length pre"
proof -
  have "schedule_tricks load_class obs tricks pathname recursive =
      (obs\<lparr>watches := watches obs @ map (mk_watch pathname recursive) hs\<rparr>, Some e)"
    using schedule_items_fail_at [OF assms(2) assms(3)] assms(1)
    by (simp add: schedule_tricks_concat)
  moreover have "length hs = length pre"
    using assms(2) by (simp add: list_all2_lengthD)
  ultimately show ?thesis
    by (simp add: mk_watch_def cong: map_cong)
qed

theorem schedule_tricks_no_rollback_witness:
  "schedule_tricks example_loader (new_observer 0)
     [[(''LoggerTrick'', PDict [])],
      [(''NoSuchTrick'', PDict [])],
      [(''DirTrick'', PDict [])]]
     ''conf.d'' False =
   (\<lparr>obs_id = 0,
     watches =
       [\<lparr>w_handler = \<lparr>class_name = ''LoggerTrick'', init_kwargs = [],
                        source_directory = None\<rparr>,
         w_path = PStr ''conf.d'', w_recursive = False\<rparr>],
     started = False\<rparr>,
    Some (ImportError ''NoSuchTrick''))"
proof -
  let ?tricks = "[[(''LoggerTrick'', PDict [])], [(''NoSuchTrick'', PDict [])],
                  [(''DirTrick'', PDict [])]]"
  have c: "concat ?tricks =
      [(''LoggerTrick'', PDict [])] @ (''NoSuchTrick'', PDict []) # [(''DirTrick'', PDict [])]"
    by simp
  have ok: "list_all2 (\<lambda>spec h. make_handler example_loader (fst spec) (snd spec) = Inr h)
      [(''LoggerTrick'', PDict [])]
      [\<lparr>class_name = ''LoggerTrick'', init_kwargs = [], source_directory = None\<rparr>]"
    by (simp add: make_handler_def example_loader_def logger_trick_def)
  have bad: "make_handler example_loader ''NoSuchTrick'' (PDict []) = Inl (ImportError ''NoSuchTrick'')"
    by (simp add: make_handler_def example_loader_def)
  show ?thesis
    using schedule_tricks_no_rollback [OF c ok bad, of "new_observer 0" "''conf.d''" False]
    by (simp add: new_observer_def trick_pathname_def py_or_def getattr_source_directory_def)
qed

text \<open>
  Claim C9. \<open>schedule_tricks\<close> works through the key-value pairs of all entries in
  sequence, whatever their grouping into entries: it equals the inner loop run on the
  concatenation of the entries. So an entry with an empty mapping changes nothing and
  raises nothing, and when every pair constructs, one watch is registered per pair (an
  entry with several keys gives several watches).
\<close>

theorem schedule_tricks_one_registration_per_pair:
  "schedule_tricks load_class obs tricks pathname recursive =
     schedule_items load_class obs (concat tricks) pathname recursive
   \<and> schedule_tricks load_class obs (pre @ [] # post) pathname recursive =
     schedule_tricks load_class obs (pre @ post) pathname recursive
   \<and> schedule_tricks load_class obs [[]] pathname recursive = (obs, None)
   \<and> (list_all2 (\<lambda>pair h. make_handler load_class (fst pair) (snd pair) = Inr h)
         (concat tricks) hs \<longrightarrow>
       schedule_tricks load_class obs tricks pathname recursive =
         (obs\<lparr>watches := watches obs @
                map (\<lambda>h. \<lparr>w_handler = h, w_path = trick_pathname h pathname,
                          w_recursive = recursive\<rparr>) hs\<rparr>,
          None)
       \<and> length hs = length (concat tricks))"
proof -
  have a: "schedule_tricks load_class obs tricks pathname recursive =
     schedule_items load_class obs (concat tricks) pathname recursive"
    by (rule schedule_tricks_concat)
  have b: "schedule_tricks load_class obs (pre @ [] # post) pathname recursive =
     schedule_tricks load_class obs (pre @ post) pathname recursive"
    by (simp add: schedule_tricks_concat)
  have c: "schedule_tricks load_class obs [[]] pathname recursive = (obs, None)"
    by simp
  have d: "schedule_tricks load_class obs tricks pathname recursive =
         (obs\<lparr>watches := watches obs @
                map (\<lambda>h. \<lparr>w_handler = h, w_path = trick_pathname h pathname,
                          w_recursive = recursive\<rparr>) hs\<rparr>,
          None)
       \<and> length hs = length (concat tricks)"
    if h: "list_all2 (\<lambda>pair h. make_handler load_class (fst pair) (snd pair) = Inr h)
         (concat tricks) hs"
  proof -
    have "schedule_tricks load_class obs tricks pathname recursive =
        (obs\<lparr>watches := watches obs @ map (mk_watch pathname recursive) hs\<rparr>, None)"
      using schedule_items_all_ok [OF h] by (simp add: schedule_tricks_concat)
    moreover have "length hs = length (concat tricks)"
      using h by (simp add: list_all2_lengthD)
    ultimately show ?thesis by (simp add: mk_watch_def cong: map_cong)
  qed
  from a b c d show ?thesis by blast
qed

theorem schedule_tricks_one_registration_per_pair_witness:
  "schedule_tricks example_loader (new_observer 0)
     [[(''LoggerTrick'', PDict []), (''DirTrick'', PDict [(''source_directory'', PStr ''/srv'')])],
      []]
     ''conf.d'' True =
   (\<lparr>obs_id = 0,
     watches =
       [\<lparr>w_handler = \<lparr>class_name = ''LoggerTrick'', init_kwargs = [],
                        source_directory = None\<rparr>,
         w_path = PStr ''conf.d'', w_recursive = True\<rparr>,
        \<lparr>w_handler = \<lparr>class_name = ''DirTrick'',
                        init_kwargs = [(''source_directory'', PStr ''/srv'')],
                        source_directory = Some (PStr ''/srv'')\<rparr>,
         w_path = PStr ''/srv'', w_recursive = True\<rparr>],
     started = False\<rparr>,
    None)"
proof -
  let ?tricks = "[[(''LoggerTrick'', PDict []),
                   (''DirTrick'', PDict [(''source_directory'', PStr ''/srv'')])], []]"
  let ?hs = "[\<lparr>class_name = ''LoggerTrick'', init_kwargs = [], source_directory = None\<rparr>,
              \<lparr>class_name = ''DirTrick'',
               init_kwargs = [(''source_directory'', PStr ''/srv'')],
               source_directory = Some (PStr ''/srv'')\<rparr>]"
  have h: "list_all2 (\<lambda>pair h. make_handler example_loader (fst pair) (snd pair) = Inr h)
      (concat ?tricks) ?hs"
    by (simp add: make_handler_def example_loader_def dir_trick_def logger_trick_def)
  show ?thesis
    using schedule_tricks_one_registration_per_pair
      [of example_loader "new_observer 0" ?tricks "''conf.d''" True "[]" "[]" ?hs] h
    by (simp add: new_observer_def trick_pathname_def py_or_def getattr_source_directory_def)
qed

text \<open>
  Claim C10. The watch path of a constructed handler is chosen by the truth value of its
  \<open>source_directory\<close>: with the attribute absent, \<^verbatim>\<open>None\<close>, the empty string or any
  other falsy value the handler is registered at the default pathname; only a truthy
  value replaces the default.
\<close>

theorem source_directory_override_by_truthiness:
  assumes "load_class name = Inr cls" and "cls kwargs = Inr h"
  shows "schedule_tricks load_class obs [[(name, PDict kwargs)]] pathname recursive =
           (schedule obs h (trick_pathname h pathname) recursive, None)
         \<and> (source_directory h = None \<longrightarrow> trick_pathname h pathname = PStr pathname)
         \<and> (source_directory h = Some PNone \<longrightarrow> trick_pathname h pathname = PStr pathname)
         \<and> (source_directory h = Some (PStr []) \<longrightarrow> trick_pathname h pathname = PStr pathname)
         \<and> (\<forall>v. source_directory h = Some v \<and> \<not> truthy v \<longrightarrow>
                trick_pathname h pathname = PStr pathname)
         \<and> (\<forall>v. source_directory h = Some v \<and> truthy v \<longrightarrow> trick_pathname h pathname = v)"
proof -
  have "make_handler load_class name (PDict kwargs) = Inr h"
    using assms by (simp add: make_handler_def)
  then have "schedule_tricks load_class obs [[(name, PDict kwargs)]] pathname recursive =
           (schedule obs h (trick_pathname h pathname) recursive, None)"
    by simp
  then show ?thesis
    by (simp add: trick_pathname_cases)
qed

theorem source_directory_override_by_truthiness_witness:
  "schedule_tricks example_loader (new_observer 0)
     [[(''DirTrick'', PDict [(''source_directory'', PInt 0)])]] ''conf.d'' True =
   (\<lparr>obs_id = 0,
     watches =
       [\<lparr>w_handler = \<lparr>class_name = ''DirTrick'',
                        init_kwargs = [(''source_directory'', PInt 0)],
                        source_directory = Some (PInt 0)\<rparr>,
         w_path = PStr ''conf.d'', w_recursive = True\<rparr>],
     started = False\<rparr>,
    None)"
proof -
  have l: "example_loader ''DirTrick'' = Inr dir_trick"
    by (simp add: example_loader_def)
  have c: "dir_trick [(''source_directory'', PInt 0)] =
      Inr \<lparr>class_name = ''DirTrick'', init_kwargs = [(''source_directory'', PInt 0)],
           source_directory = Some (PInt 0)\<rparr>"
    by (simp add: dir_trick_def)
  show ?thesis
    using source_directory_override_by_truthiness
      [of example_loader "''DirTrick''" dir_trick "[(''source_directory'', PInt 0)]"
          "\<lparr>class_name = ''DirTrick'', init_kwargs = [(''source_directory'', PInt 0)],
            source_directory = Some (PInt 0)\<rparr>"
          "new_observer 0" "''conf.d''" True]
      l c
    by (simp add: new_observer_def schedule_def)
qed

section \<open>Properties of the teardown of the tricks command\<close>

lemma stop_observers_append:
  "stop_observers fails (xs @ ys) tr =
     (case stop_observers fails xs tr of
        (tr1, Some e) \<Rightarrow> (tr1, Some e)
      | (tr1, None) \<Rightarrow> stop_observers fails ys tr1)"
  by (induction xs arbitrary: tr) (auto simp: Let_def split: option.splits)

lemma join_observers_append:
  "join_observers fails (xs @ ys) tr =
     (case join_observers fails xs tr of
        (tr1, Some e) \<Rightarrow> (tr1, Some e)
      | (tr1, None) \<Rightarrow> join_observers fails ys tr1)"
  by (induction xs arbitrary: tr) (auto simp: Let_def split: option.splits)

lemma stop_observers_all_ok:
  "\<forall>ob\<in>set obs. fails (obs_id ob) UnscheduleAllOp = None \<and> fails (obs_id ob) StopOp = None \<Longrightarrow>
   stop_observers fails obs tr =
     (tr @ concat (map (\<lambda>ob. [ObserverCall (obs_id ob) UnscheduleAllOp,
                               ObserverCall (obs_id ob) StopOp]) obs), None)"
  by (induction obs arbitrary: tr) (simp_all add: Let_def)

lemma join_observers_all_ok:
  "\<forall>ob\<in>set obs. fails (obs_id ob) JoinOp = None \<Longrightarrow>
   join_observers fails obs tr =
     (tr @ map (\<lambda>ob. ObserverCall (obs_id ob) JoinOp) obs, None)"
  by (induction obs arbitrary: tr) (simp_all add: Let_def)

text \<open>
  Claim C3, as amended. When \<^verbatim>\<open>WatchdogShutdown\<close> ends the sleep loop of the tricks
  command, the observers are taken in start order: for each one all watches are
  unscheduled and then it is stopped; after that each one is joined, again in start
  order. This runs to the end when no call raises. The first
  \<^verbatim>\<open>unschedule_all\<close>, \<^verbatim>\<open>stop\<close> or \<^verbatim>\<open>join\<close> that raises ends the teardown with
  its exception: the calls made are exactly those up to and including the raising one,
  and no later observer is stopped or joined.
\<close>

theorem teardown_runs_until_first_raise:
  "((\<forall>ob\<in>set obs. \<forall>op. fails (obs_id ob) op = None) \<longrightarrow>
      teardown fails obs WatchdogShutdown tr =
        (tr @ concat (map (\<lambda>ob. [ObserverCall (obs_id ob) UnscheduleAllOp,
                                  ObserverCall (obs_id ob) StopOp]) obs)
            @ map (\<lambda>ob. ObserverCall (obs_id ob) JoinOp) obs,
         Returned))
   \<and> (obs = pre @ ob # post
        \<and> (\<forall>p\<in>set pre. fails (obs_id p) UnscheduleAllOp = None \<and> fails (obs_id p) StopOp = None)
        \<and> fails (obs_id ob) UnscheduleAllOp = Some e \<longrightarrow>
      teardown fails obs WatchdogShutdown tr =
        (tr @ concat (map (\<lambda>ob. [ObserverCall (obs_id ob) UnscheduleAllOp,
                                  ObserverCall (obs_id ob) StopOp]) pre)
            @ [ObserverCall (obs_id ob) UnscheduleAllOp],
         Raised e))
   \<and> (obs = pre @ ob # post
        \<and> (\<forall>p\<in>set pre. fails (obs_id p) UnscheduleAllOp = None \<and> fails (obs_id p) StopOp = None)
        \<and> fails (obs_id ob) UnscheduleAllOp = None \<and> fails (obs_id ob) StopOp = Some e \<longrightarrow>
      teardown fails obs WatchdogShutdown tr =
        (tr @ concat (map (\<lambda>ob. [ObserverCall (obs_id ob) UnscheduleAllOp,
                                  ObserverCall (obs_id ob) StopOp]) pre)
            @ [ObserverCall (obs_id ob) UnscheduleAllOp, ObserverCall (obs_id ob) StopOp],
         Raised e))
   \<and> (obs = pre @ ob # post
        \<and> (\<forall>p\<in>set obs. fails (obs_id p) UnscheduleAllOp = None \<and> fails (obs_id p) StopOp = None)
        \<and> (\<forall>p\<in>set pre. fails (obs_id p) JoinOp = None)
        \<and> fails (obs_id ob) JoinOp = Some e \<longrightarrow>
      teardown fails obs WatchdogShutdown tr =
        (tr @ concat (map (\<lambda>ob. [ObserverCall (obs_id ob) UnscheduleAllOp,
                                  ObserverCall (obs_id ob) StopOp]) obs)
            @ map (\<lambda>ob. ObserverCall (obs_id ob) JoinOp) pre
            @ [ObserverCall (obs_id ob) JoinOp],
         Raised e))"
proof (intro conjI impI)
  assume ok: "\<forall>ob\<in>set obs. \<forall>op. fails (obs_id ob) op = None"
  then have s: "\<forall>ob\<in>set obs. fails (obs_id ob) UnscheduleAllOp = None \<and> fails (obs_id ob) StopOp = None"
    and j: "\<forall>ob\<in>set obs. fails (obs_id ob) JoinOp = None"
    by simp_all
  show "teardown fails obs WatchdogShutdown tr =
        (tr @ concat (map (\<lambda>ob. [ObserverCall (obs_id ob) UnscheduleAllOp,
                                  ObserverCall (obs_id ob) StopOp]) obs)
            @ map (\<lambda>ob. ObserverCall (obs_id ob) JoinOp) obs,
         Returned)"
    using s j by (simp add: teardown_def stop_observers_all_ok join_observers_all_ok)
next
  assume a: "obs = pre @ ob # post
        \<and> (\<forall>p\<in>set pre. fails (obs_id p) UnscheduleAllOp = None \<and> fails (obs_id p) StopOp = None)
        \<and> fails (obs_id ob) UnscheduleAllOp = Some e"
  then have s: "\<forall>p\<in>set pre. fails (obs_id p) UnscheduleAllOp = None \<and> fails (obs_id p) StopOp = None"
    by simp
  show "teardown fails obs WatchdogShutdown tr =
        (tr @ concat (map (\<lambda>ob. [ObserverCall (obs_id ob) UnscheduleAllOp,
                                  ObserverCall (obs_id ob) StopOp]) pre)
            @ [ObserverCall (obs_id ob) UnscheduleAllOp],
         Raised e)"
    using a s by (simp add: teardown_def stop_observers_append stop_observers_all_ok Let_def)
next
  assume a: "obs = pre @ ob # post
        \<and> (\<forall>p\<in>set pre. fails (obs_id p) UnscheduleAllOp = None \<and> fails (obs_id p) StopOp = None)
        \<and> fails (obs_id ob) UnscheduleAllOp = None \<and> fails (obs_id ob) StopOp = Some e"
  then have s: "\<forall>p\<in>set pre. fails (obs_id p) UnscheduleAllOp = None \<and> fails (obs_id p) StopOp = None"
    by simp
  show "teardown fails obs WatchdogShutdown tr =
        (tr @ concat (map (\<lambda>ob. [ObserverCall (obs_id ob) UnscheduleAllOp,
                                  ObserverCall (obs_id ob) StopOp]) pre)
            @ [ObserverCall (obs_id ob) UnscheduleAllOp, ObserverCall (obs_id ob) StopOp],
         Raised e)"
    using a s by (simp add: teardown_def stop_observers_append stop_observers_all_ok Let_def)
next
  assume a: "obs = pre @ ob # post
        \<and> (\<forall>p\<in>set obs. fails (obs_id p) UnscheduleAllOp = None \<and> fails (obs_id p) StopOp = None)
        \<and> (\<forall>p\<in>set pre. fails (obs_id p) JoinOp = None)
        \<and> fails (obs_id ob) JoinOp = Some e"
  then have s: "\<forall>p\<in>set obs. fails (obs_id p) UnscheduleAllOp = None \<and> fails (obs_id p) StopOp = None"
    and j: "\<forall>p\<in>set pre. fails (obs_id p) JoinOp = None"
    and o: "obs = pre @ ob # post" and f: "fails (obs_id ob) JoinOp = Some e"
    by simp_all
  have "join_observers fails obs t =
      (t @ map (\<lambda>ob. ObserverCall (obs_id ob) JoinOp) pre @ [ObserverCall (obs_id ob) JoinOp], Some e)"
    for t
    using j by (simp add: o join_observers_append join_observers_all_ok f Let_def)
  then show "teardown fails obs WatchdogShutdown tr =
        (tr @ concat (map (\<lambda>ob. [ObserverCall (obs_id ob) UnscheduleAllOp,
                                  ObserverCall (obs_id ob) StopOp]) obs)
            @ map (\<lambda>ob. ObserverCall (obs_id ob) JoinOp) pre
            @ [ObserverCall (obs_id ob) JoinOp],
         Raised e)"
    using s by (simp add: teardown_def stop_observers_all_ok)
qed

theorem teardown_runs_until_first_raise_witness:
  "teardown stop_fails_on_first [new_observer 0, new_observer 1] WatchdogShutdown [] =
     ([ObserverCall 0 UnscheduleAllOp, ObserverCall 0 StopOp], Raised (RuntimeError ''cannot stop''))
   \<and> teardown never_fails [new_observer 0, new_observer 1] WatchdogShutdown [] =
     ([ObserverCall 0 UnscheduleAllOp, ObserverCall 0 StopOp,
       ObserverCall 1 UnscheduleAllOp, ObserverCall 1 StopOp,
       ObserverCall 0 JoinOp, ObserverCall 1 JoinOp], Returned)"
  using teardown_runs_until_first_raise
    [of "[new_observer 0, new_observer 1]" stop_fails_on_first "[]" "[]" "new_observer 0"
        "[new_observer 1]" "RuntimeError ''cannot stop''"]
    teardown_runs_until_first_raise
    [of "[new_observer 0, new_observer 1]" never_fails "[]" "[]" "new_observer 0"
        "[new_observer 1]" "RuntimeError ''cannot stop''"]
  by (simp add: new_observer_def stop_fails_on_first_def never_fails_def)

text \<open>
  The claim as first stated has the stop and join of every observer attempted even when
  an earlier one raises. In a run over two configuration files where stopping the first
  observer raises, the second observer is never stopped and no observer is joined.
\<close>

theorem teardown_short_circuit_counterexample:
  "tricks_from example_resolver example_fs stop_fails_on_first
     \<lparr>arg_files = [''conf/ok.yml'', ''extra.yml''], arg_python_path = ''.'', arg_recursive = True\<rparr>
     [None, Some WatchdogShutdown] empty_world
   = (\<lparr>sys_path_of = [''lib'', ''vendor'', ''.'', ''/usr/lib/python3''],
       observers_of =
         [\<lparr>obs_id = 0,
           watches = [\<lparr>w_handler = \<lparr>class_name = ''LoggerTrick'', init_kwargs = [],
                                     source_directory = None\<rparr>,
                       w_path = PStr ''conf'', w_recursive = True\<rparr>],
           started = True\<rparr>,
          \<lparr>obs_id = 1,
           watches = [\<lparr>w_handler = \<lparr>class_name = ''LoggerTrick'', init_kwargs = [],
                                     source_directory = None\<rparr>,
                       w_path = PStr ''.'', w_recursive = True\<rparr>],
           started = True\<rparr>],
       trace_of =
         [SysPathInsert Startup ''.'', ObserverCall 0 StartOp,
          SysPathInsert (ConfigFile 1) ''vendor'', SysPathInsert (ConfigFile 1) ''lib'',
          ObserverCall 1 StartOp,
          ObserverCall 0 UnscheduleAllOp, ObserverCall 0 StopOp]\<rparr>,
      Raised (RuntimeError ''cannot stop''))"
  by (simp add: tricks_from_def add_roots_def path_split_def pathsep_def add_to_sys_path_def
      py_insert_def process_file_def example_fs_def example_resolver_def example_loader_def
      logger_trick_def make_handler_def schedule_def trick_pathname_def py_or_def
      getattr_source_directory_def new_observer_def dir_path_of_def dirname_def
      stop_fails_on_first_def teardown_def empty_world_def Let_def)

section \<open>Properties of the startup of the tricks command\<close>

lemma started_ids_append: "started_ids (a @ b) = started_ids a @ started_ids b"
  by (induction a rule: started_ids.induct) simp_all

lemma started_ids_inserts: "started_ids (map (SysPathInsert origin) ps) = []"
  by (induction ps) simp_all

lemma started_ids_teardown: "list_all is_teardown_call xs \<Longrightarrow> started_ids xs = []"
  by (induction xs rule: started_ids.induct) simp_all

lemma trace_add_roots:
  "trace_of (add_roots origin ps w) = trace_of w @ map (SysPathInsert origin) (rev ps)"
  by (simp add: add_roots_def)

lemma observers_add_roots: "observers_of (add_roots origin ps w) = observers_of w"
  by (simp add: add_roots_def)

lemma process_file_shape:
  assumes "process_file resolve fs fails recursive k f w = (w', r)"
  shows "\<exists>roots suffix. trace_of w' = trace_of w @ map (SysPathInsert (ConfigFile k)) roots @ suffix
           \<and> (suffix = [] \<or> suffix = [ObserverCall k StartOp])
           \<and> (r = None \<longrightarrow> suffix = [ObserverCall k StartOp])"
proof (cases "fs f")
  case None
  with assms have "w' = w" "r \<noteq> None" by (auto simp: process_file_def)
  then show ?thesis by (intro exI [of _ "[]"]) simp
next
  case fsf: (Some res)
  show ?thesis
  proof (cases res)
    case (Inl e)
    with fsf assms have "w' = w" "r \<noteq> None" by (auto simp: process_file_def)
    then show ?thesis by (intro exI [of _ "[]"]) simp
  next
    case (Inr cfg)
    show ?thesis
    proof (cases "cfg_tricks cfg")
      case None
      with fsf Inr assms have "w' = w" "r \<noteq> None" by (auto simp: process_file_def)
      then show ?thesis by (intro exI [of _ "[]"]) simp
    next
      case tr: (Some tricks)
      define w1 where "w1 = (case cfg_python_path cfg of None \<Rightarrow> w
                              | Some roots \<Rightarrow> add_roots (ConfigFile k) roots w)"
      obtain roots where t1: "trace_of w1 = trace_of w @ map (SysPathInsert (ConfigFile k)) roots"
      proof (cases "cfg_python_path cfg")
        case None
        then have "trace_of w1 = trace_of w @ map (SysPathInsert (ConfigFile k)) []"
          by (simp add: w1_def)
        then show ?thesis by (rule that)
      next
        case (Some ps)
        then have "trace_of w1 = trace_of w @ map (SysPathInsert (ConfigFile k)) (rev ps)"
          by (simp add: w1_def trace_add_roots)
        then show ?thesis by (rule that)
      qed
      obtain ob' sr where sch: "schedule_tricks (resolve (sys_path_of w1)) (new_observer k) tricks
          (dir_path_of f) recursive = (ob', sr)"
        by (cases "schedule_tricks (resolve (sys_path_of w1)) (new_observer k) tricks
          (dir_path_of f) recursive")
      show ?thesis
      proof (cases sr)
        case (Some e)
        with fsf Inr tr sch assms have "w' = w1" "r \<noteq> None"
          by (auto simp: process_file_def Let_def w1_def)
        with t1 show ?thesis by (intro exI [of _ roots] exI [of _ "[]"]) simp
      next
        case None
        with fsf Inr tr sch assms
        have "trace_of w' = trace_of w1 @ [ObserverCall k StartOp]"
          by (auto simp: process_file_def Let_def w1_def split: option.splits)
        with t1 show ?thesis
          by (intro exI [of _ roots] exI [of _ "[ObserverCall k StartOp]"]) simp
      qed
    qed
  qed
qed

lemma process_file_observers:
  assumes "process_file resolve fs fails recursive k f w = (w', r)"
  shows "r = None \<longrightarrow> length (observers_of w') = Suc (length (observers_of w))"
  using assms
  by (auto simp: process_file_def Let_def observers_add_roots
      split: option.splits sum.splits prod.splits)

lemma run_files_append:
  "run_files resolve fs fails recursive k (xs @ ys) w =
     (case run_files resolve fs fails recursive k xs w of
        (w', Some e) \<Rightarrow> (w', Some e)
      | (w', None) \<Rightarrow> run_files resolve fs fails recursive (k + length xs) ys w')"
proof (induction xs arbitrary: k w)
  case Nil
  show ?case by simp
next
  case (Cons x xs)
  show ?case
    by (cases "process_file resolve fs fails recursive k x w")
       (auto simp: Cons.IH split: option.splits)
qed

lemma run_files_started:
  "run_files resolve fs fails recursive k files w = (w', None) \<Longrightarrow>
   started_ids (trace_of w') = started_ids (trace_of w) @ [k..<k + length files]
   \<and> length (observers_of w') = length (observers_of w) + length files"
proof (induction files arbitrary: k w)
  case Nil
  then show ?case by simp
next
  case (Cons f files)
  obtain w1 r where pf: "process_file resolve fs fails recursive k f w = (w1, r)"
    by (cases "process_file resolve fs fails recursive k f w")
  with Cons.prems have r: "r = None"
    and rest: "run_files resolve fs fails recursive (Suc k) files w1 = (w', None)"
    by (auto split: option.splits)
  from process_file_shape [OF pf] r obtain roots where
    "trace_of w1 = trace_of w @ map (SysPathInsert (ConfigFile k)) roots @ [ObserverCall k StartOp]"
    by auto
  then have s1: "started_ids (trace_of w1) = started_ids (trace_of w) @ [k]"
    by (simp add: started_ids_append started_ids_inserts)
  from process_file_observers [OF pf] r
  have o1: "length (observers_of w1) = Suc (length (observers_of w))" by simp
  have u: "[k..<k + length (f # files)] = k # [Suc k..<Suc k + length files]"
    by (subst upt_rec) simp
  from Cons.IH [OF rest] s1 o1 show ?case
    unfolding u by simp
qed

text \<open>
  Claim C4, as amended. In a run of the tricks command over any number of configuration
  files, let the files before file \<open>f\<close> be processed without error and let a trick spec
  of \<open>f\<close> be the first one whose handler cannot be built. Then the error propagates
  and ends the run before the observer of \<open>f\<close> or of any later file is started. The
  observers of the files before \<open>f\<close>, and only those, have been started by then, and
  they stay on the list; when \<open>f\<close> is the first file, no observer has been started.
\<close>

theorem unresolved_trick_aborts_before_own_observer:
  assumes "arg_files a = pre @ f # post"
    and "run_files resolve fs fails (arg_recursive a) 0 pre
           (add_roots Startup (path_split (arg_python_path a)) w) = (w1, None)"
    and "fs f = Some (Inr cfg)"
    and "cfg_tricks cfg = Some tricks"
    and "w2 = (case cfg_python_path cfg of
                 None \<Rightarrow> w1
               | Some roots \<Rightarrow> add_roots (ConfigFile (length pre)) roots w1)"
    and "concat tricks = good @ (name, val) # rest"
    and "list_all2 (\<lambda>spec h. make_handler (resolve (sys_path_of w2)) (fst spec) (snd spec) = Inr h)
           good hs"
    and "make_handler (resolve (sys_path_of w2)) name val = Inl e"
  shows "tricks_from resolve fs fails a ticks w = (w2, Raised e)
         \<and> started_ids (trace_of w2) = started_ids (trace_of w) @ [0..<length pre]
         \<and> length (observers_of w2) = length (observers_of w) + length pre"
proof -
  let ?w0 = "add_roots Startup (path_split (arg_python_path a)) w"
  have sch: "schedule_tricks (resolve (sys_path_of w2)) (new_observer (length pre)) tricks
      (dir_path_of f) (arg_recursive a) =
      ((new_observer (length pre))\<lparr>watches := watches (new_observer (length pre)) @
          map (mk_watch (dir_path_of f) (arg_recursive a)) hs\<rparr>, Some e)"
    using schedule_items_fail_at [OF assms(7) assms(8)] assms(6)
    by (simp add: schedule_tricks_concat)
  have pf: "process_file resolve fs fails (arg_recursive a) (length pre) f w1 = (w2, Some e)"
    using sch assms(3,4,5)
    by (simp add: process_file_def Let_def)
  have "run_files resolve fs fails (arg_recursive a) 0 (arg_files a) ?w0 = (w2, Some e)"
    by (simp add: assms(1) run_files_append assms(2) pf)
  then have res: "tricks_from resolve fs fails a ticks w = (w2, Raised e)"
    by (simp add: tricks_from_def Let_def)
  from run_files_started [OF assms(2)]
  have s1: "started_ids (trace_of w1) = started_ids (trace_of w) @ [0..<length pre]"
    and o1: "length (observers_of w1) = length (observers_of w) + length pre"
    by (simp_all add: trace_add_roots observers_add_roots started_ids_append started_ids_inserts)
  have "started_ids (trace_of w2) = started_ids (trace_of w1)"
    and "observers_of w2 = observers_of w1"
    by (simp_all add: assms(5) trace_add_roots observers_add_roots started_ids_append
        started_ids_inserts split: option.splits)
  with res s1 o1 show ?thesis by simp
qed

theorem unresolved_trick_aborts_before_own_observer_witness:
  "snd (tricks_from example_resolver example_fs never_fails
          \<lparr>arg_files = [''conf/ok.yml'', ''bad.yml''], arg_python_path = ''.'',
            arg_recursive = True\<rparr>
          [None, Some WatchdogShutdown] empty_world) = Raised (ImportError ''NoSuchTrick'')
   \<and> started_ids (trace_of (fst (tricks_from example_resolver example_fs never_fails
          \<lparr>arg_files = [''conf/ok.yml'', ''bad.yml''], arg_python_path = ''.'',
            arg_recursive = True\<rparr>
          [None, Some WatchdogShutdown] empty_world))) = [0]"
proof -
  let ?a = "\<lparr>arg_files = [''conf/ok.yml'', ''bad.yml''], arg_python_path = ''.'',
             arg_recursive = True\<rparr>"
  let ?w1 = "\<lparr>sys_path_of = [''.'', ''/usr/lib/python3''],
              observers_of =
                [\<lparr>obs_id = 0,
                  watches = [\<lparr>w_handler = \<lparr>class_name = ''LoggerTrick'', init_kwargs = [],
                                            source_directory = None\<rparr>,
                              w_path = PStr ''conf'', w_recursive = True\<rparr>],
                  started = True\<rparr>],
              trace_of = [SysPathInsert Startup ''.'', ObserverCall 0 StartOp]\<rparr>"
  let ?cfg = "\<lparr>cfg_tricks = Some [[(''NoSuchTrick'', PDict [])]], cfg_python_path = None\<rparr>"
  have h1: "arg_files ?a = [''conf/ok.yml''] @ ''bad.yml'' # []" by simp
  have h2: "run_files example_resolver example_fs never_fails (arg_recursive ?a) 0 [''conf/ok.yml'']
      (add_roots Startup (path_split (arg_python_path ?a)) empty_world) = (?w1, None)"
    by (simp add: add_roots_def path_split_def pathsep_def add_to_sys_path_def
      py_insert_def process_file_def example_fs_def example_resolver_def example_loader_def
      logger_trick_def make_handler_def schedule_def trick_pathname_def py_or_def
      getattr_source_directory_def new_observer_def dir_path_of_def dirname_def
      never_fails_def empty_world_def Let_def)
  have h3: "example_fs ''bad.yml'' = Some (Inr ?cfg)" by (simp add: example_fs_def)
  have h4: "cfg_tricks ?cfg = Some [[(''NoSuchTrick'', PDict [])]]" by simp
  have h5: "?w1 = (case cfg_python_path ?cfg of None \<Rightarrow> ?w1
      | Some roots \<Rightarrow> add_roots (ConfigFile (length [''conf/ok.yml''])) roots ?w1)"
    by simp
  have h6: "concat [[(''NoSuchTrick'', PDict [])]] = [] @ (''NoSuchTrick'', PDict []) # []"
    by simp
  have h7: "list_all2 (\<lambda>spec h. make_handler (example_resolver (sys_path_of ?w1)) (fst spec)
      (snd spec) = Inr h) [] []"
    by simp
  have h8: "make_handler (example_resolver (sys_path_of ?w1)) ''NoSuchTrick'' (PDict []) =
      Inl (ImportError ''NoSuchTrick'')"
    by (simp add: make_handler_def example_resolver_def example_loader_def)
  show ?thesis
    using unresolved_trick_aborts_before_own_observer [OF h1 h2 h3 h4 h5 h6 h7 h8,
      of "[None, Some WatchdogShutdown]"]
    by (simp add: empty_world_def)
qed

text \<open>
  The claim as first stated has the run end before any observer has been started. With
  two configuration files, the second naming a class that cannot be loaded, the observer
  of the first file is started before the error ends the run.
\<close>

theorem partial_startup_counterexample:
  "tricks_from example_resolver example_fs never_fails
     \<lparr>arg_files = [''conf/ok.yml'', ''bad.yml''], arg_python_path = ''.'', arg_recursive = True\<rparr>
     [None, Some WatchdogShutdown] empty_world
   = (\<lparr>sys_path_of = [''.'', ''/usr/lib/python3''],
       observers_of =
         [\<lparr>obs_id = 0,
           watches = [\<lparr>w_handler = \<lparr>class_name = ''LoggerTrick'', init_kwargs = [],
                                     source_directory = None\<rparr>,
                       w_path = PStr ''conf'', w_recursive = True\<rparr>],
           started = True\<rparr>],
       trace_of = [SysPathInsert Startup ''.'', ObserverCall 0 StartOp]\<rparr>,
      Raised (ImportError ''NoSuchTrick''))"
  by (simp add: tricks_from_def add_roots_def path_split_def pathsep_def add_to_sys_path_def
      py_insert_def process_file_def example_fs_def example_resolver_def example_loader_def
      logger_trick_def make_handler_def schedule_def trick_pathname_def py_or_def
      getattr_source_directory_def new_observer_def dir_path_of_def dirname_def
      never_fails_def teardown_def empty_world_def Let_def)

lemma inserts_precede_append:
  "inserts_precede_own_start st (a @ b) =
     (inserts_precede_own_start st a \<and> inserts_precede_own_start (rev (started_ids a) @ st) b)"
  by (induction st a rule: inserts_precede_own_start.induct) auto

lemma no_insert_after_start_append:
  "no_insert_after_start seen (a @ b) =
     (no_insert_after_start seen a \<and> no_insert_after_start (seen \<or> started_ids a \<noteq> []) b)"
  by (induction seen a rule: no_insert_after_start.induct) auto

lemma inserts_precede_teardown:
  "list_all is_teardown_call xs \<Longrightarrow> inserts_precede_own_start st xs"
  by (induction st xs rule: inserts_precede_own_start.induct) simp_all

lemma no_insert_after_start_teardown:
  "list_all is_teardown_call xs \<Longrightarrow> no_insert_after_start seen xs"
  by (induction seen xs rule: no_insert_after_start.induct) simp_all

lemma inserts_precede_file_roots:
  "inserts_precede_own_start (rev [0..<k]) (map (SysPathInsert (ConfigFile k)) roots @ suffix) =
     inserts_precede_own_start (rev [0..<k]) suffix"
  by (induction roots) simp_all

lemma inserts_precede_startup_roots:
  "inserts_precede_own_start [] (map (SysPathInsert Startup) roots @ suffix) =
     inserts_precede_own_start [] suffix"
  by (induction roots) simp_all

lemma stop_observers_trace:
  "\<exists>xs. fst (stop_observers fails obs tr) = tr @ xs \<and> list_all is_teardown_call xs"
proof (induction obs arbitrary: tr)
  case Nil
  show ?case by simp
next
  case (Cons ob obs)
  from Cons.IH [of "tr @ [ObserverCall (obs_id ob) UnscheduleAllOp, ObserverCall (obs_id ob) StopOp]"]
  obtain xs where "fst (stop_observers fails obs
      (tr @ [ObserverCall (obs_id ob) UnscheduleAllOp, ObserverCall (obs_id ob) StopOp])) =
      tr @ [ObserverCall (obs_id ob) UnscheduleAllOp, ObserverCall (obs_id ob) StopOp] @ xs"
    and "list_all is_teardown_call xs"
    by auto
  then show ?case
    by (auto simp: Let_def split: option.splits)
qed

lemma join_observers_trace:
  "\<exists>xs. fst (join_observers fails obs tr) = tr @ xs \<and> list_all is_teardown_call xs"
proof (induction obs arbitrary: tr)
  case Nil
  show ?case by simp
next
  case (Cons ob obs)
  from Cons.IH [of "tr @ [ObserverCall (obs_id ob) JoinOp]"]
  obtain xs where "fst (join_observers fails obs (tr @ [ObserverCall (obs_id ob) JoinOp])) =
      tr @ [ObserverCall (obs_id ob) JoinOp] @ xs"
    and "list_all is_teardown_call xs"
    by auto
  then show ?case
    by (auto simp: Let_def split: option.splits)
qed

lemma teardown_trace:
  "\<exists>xs. fst (teardown fails obs exc tr) = tr @ xs \<and> list_all is_teardown_call xs"
proof (cases "exc = WatchdogShutdown")
  case False
  then show ?thesis by (simp add: teardown_def)
next
  case True
  obtain xs where s: "fst (stop_observers fails obs tr) = tr @ xs" "list_all is_teardown_call xs"
    using stop_observers_trace by blast
  obtain ys where j: "fst (join_observers fails obs (tr @ xs)) = (tr @ xs) @ ys"
    "list_all is_teardown_call ys"
    using join_observers_trace by blast
  show ?thesis
  proof (cases "stop_observers fails obs tr")
    case (Pair tr1 r)
    with s have tr1: "tr1 = tr @ xs" by simp
    show ?thesis
    proof (cases r)
      case (Some e)
      with Pair True tr1 s show ?thesis by (simp add: teardown_def)
    next
      case None
      obtain tr2 r2 where jp: "join_observers fails obs (tr @ xs) = (tr2, r2)"
        by (cases "join_observers fails obs (tr @ xs)")
      with j have "tr2 = tr @ (xs @ ys)" by simp
      moreover have "list_all is_teardown_call (xs @ ys)" using s j by simp
      ultimately show ?thesis
        using Pair None True tr1 jp
        by (cases r2) (auto simp: teardown_def)
    qed
  qed
qed

lemma run_files_inserts:
  assumes "started_ids (trace_of w) = [0..<k]"
    and "inserts_precede_own_start [] (trace_of w)"
  shows "inserts_precede_own_start [] (trace_of (fst (run_files resolve fs fails recursive k files w)))"
  using assms
proof (induction files arbitrary: k w)
  case Nil
  then show ?case by simp
next
  case (Cons f files)
  obtain w1 r where pf: "process_file resolve fs fails recursive k f w = (w1, r)"
    by (cases "process_file resolve fs fails recursive k f w")
  from process_file_shape [OF pf] obtain roots suffix where
    t1: "trace_of w1 = trace_of w @ map (SysPathInsert (ConfigFile k)) roots @ suffix"
    and sfx: "suffix = [] \<or> suffix = [ObserverCall k StartOp]"
    and ok: "r = None \<longrightarrow> suffix = [ObserverCall k StartOp]"
    by blast
  from sfx have "inserts_precede_own_start (rev [0..<k])
      (map (SysPathInsert (ConfigFile k)) roots @ suffix)"
    by (auto simp: inserts_precede_file_roots)
  then have i1: "inserts_precede_own_start [] (trace_of w1)"
    unfolding t1 using Cons.prems by (subst inserts_precede_append) simp
  show ?case
  proof (cases r)
    case (Some e)
    with pf i1 show ?thesis by simp
  next
    case None
    with ok t1 Cons.prems(1) have "started_ids (trace_of w1) = [0..<Suc k]"
      by (simp add: started_ids_append started_ids_inserts)
    from Cons.IH [OF this i1] pf None show ?thesis by simp
  qed
qed

lemma no_insert_after_start_roots:
  "no_insert_after_start False (map (SysPathInsert origin) roots @ suffix) =
     no_insert_after_start False suffix"
  by (induction roots) simp_all

lemma tricks_from_trace:
  "\<exists>w2 r xs. run_files resolve fs fails (arg_recursive a) 0 (arg_files a)
                 (add_roots Startup (path_split (arg_python_path a)) w) = (w2, r)
     \<and> trace_of (fst (tricks_from resolve fs fails a ticks w)) = trace_of w2 @ xs
     \<and> list_all is_teardown_call xs"
proof -
  obtain w2 r where rf: "run_files resolve fs fails (arg_recursive a) 0 (arg_files a)
                 (add_roots Startup (path_split (arg_python_path a)) w) = (w2, r)"
    by (cases "run_files resolve fs fails (arg_recursive a) 0 (arg_files a)
                 (add_roots Startup (path_split (arg_python_path a)) w)")
  show ?thesis
  proof (cases r)
    case (Some e)
    with rf have "trace_of (fst (tricks_from resolve fs fails a ticks w)) = trace_of w2 @ []"
      by (simp add: tricks_from_def Let_def)
    with rf show ?thesis by (intro exI [of _ w2] exI [of _ r] exI [of _ "[]"]) simp
  next
    case None
    show ?thesis
    proof (cases "wait_for_shutdown ticks")
      case wn: None
      with rf None have "trace_of (fst (tricks_from resolve fs fails a ticks w)) = trace_of w2 @ []"
        by (simp add: tricks_from_def Let_def)
      with rf show ?thesis by (intro exI [of _ w2] exI [of _ r] exI [of _ "[]"]) simp
    next
      case (Some exc)
      obtain xs where td: "fst (teardown fails (observers_of w2) exc (trace_of w2)) = trace_of w2 @ xs"
        and tc: "list_all is_teardown_call xs"
        using teardown_trace by blast
      obtain tr2 out where tdp: "teardown fails (observers_of w2) exc (trace_of w2) = (tr2, out)"
        by (cases "teardown fails (observers_of w2) exc (trace_of w2)")
      with td have "tr2 = trace_of w2 @ xs" by simp
      with rf None Some tdp
      have "trace_of (fst (tricks_from resolve fs fails a ticks w)) = trace_of w2 @ xs"
        by (simp add: tricks_from_def Let_def)
      with rf tc show ?thesis by (intro exI [of _ w2] exI [of _ r] exI [of _ xs]) simp
    qed
  qed
qed

text \<open>
  Claim C7, as amended. In every run of the tricks command that begins with an empty
  event log, the startup-supplied roots are inserted into the search path before any
  observer is started, and the extra roots of each configuration file are inserted
  before that file's own observer (and every later one) is started, at a point where
  exactly the observers of the earlier files have been started. With at most one
  configuration file, no insertion follows a start.
\<close>

theorem search_path_inserts_precede_own_observer_start:
  assumes "trace_of w = []"
  shows "inserts_precede_own_start []
           (trace_of (fst (tricks_from resolve fs fails a ticks w)))
         \<and> (length (arg_files a) \<le> 1 \<longrightarrow>
              no_insert_after_start False
                (trace_of (fst (tricks_from resolve fs fails a ticks w))))"
proof -
  let ?w1 = "add_roots Startup (path_split (arg_python_path a)) w"
  from tricks_from_trace [of resolve fs fails a w ticks] obtain w2 r xs where
    rf: "run_files resolve fs fails (arg_recursive a) 0 (arg_files a) ?w1 = (w2, r)"
    and tr: "trace_of (fst (tricks_from resolve fs fails a ticks w)) = trace_of w2 @ xs"
    and tc: "list_all is_teardown_call xs"
    by blast
  have t1: "trace_of ?w1 = map (SysPathInsert Startup) (rev (path_split (arg_python_path a)))"
    using assms by (simp add: trace_add_roots)
  have "started_ids (trace_of ?w1) = [0..<0]"
    by (simp add: t1 started_ids_inserts)
  moreover have "inserts_precede_own_start [] (trace_of ?w1)"
    using inserts_precede_startup_roots [of _ "[]"] by (simp add: t1)
  ultimately have "inserts_precede_own_start []
      (trace_of (fst (run_files resolve fs fails (arg_recursive a) 0 (arg_files a) ?w1)))"
    by (rule run_files_inserts)
  with rf have "inserts_precede_own_start [] (trace_of w2)" by simp
  then have first: "inserts_precede_own_start []
           (trace_of (fst (tricks_from resolve fs fails a ticks w)))"
    using tc by (simp add: tr inserts_precede_append inserts_precede_teardown)
  have second: "no_insert_after_start False
                (trace_of (fst (tricks_from resolve fs fails a ticks w)))"
    if short: "length (arg_files a) \<le> 1"
  proof -
    have "no_insert_after_start False (trace_of w2)"
    proof (cases "arg_files a")
      case Nil
      with rf have "w2 = ?w1" by simp
      then show ?thesis
        using no_insert_after_start_roots [of _ _ "[]"] by (simp add: t1)
    next
      case (Cons f rest)
      with short have fs1: "arg_files a = [f]" by simp
      obtain w3 r3 where pf: "process_file resolve fs fails (arg_recursive a) 0 f ?w1 = (w3, r3)"
        by (cases "process_file resolve fs fails (arg_recursive a) 0 f ?w1")
      with rf fs1 have "w2 = w3" by (auto split: option.splits)
      moreover from process_file_shape [OF pf] obtain roots suffix where
        "trace_of w3 = trace_of ?w1 @ map (SysPathInsert (ConfigFile 0)) roots @ suffix"
        and "suffix = [] \<or> suffix = [ObserverCall 0 StartOp]"
        by blast
      ultimately show ?thesis
        by (auto simp: t1 no_insert_after_start_roots)
    qed
    then show ?thesis
      using tc by (simp add: tr no_insert_after_start_append no_insert_after_start_teardown)
  qed
  from first second show ?thesis by blast
qed

theorem search_path_inserts_precede_own_observer_start_witness:
  "inserts_precede_own_start []
     (trace_of (fst (tricks_from example_resolver example_fs never_fails
        \<lparr>arg_files = [''extra.yml''], arg_python_path = ''.:src'', arg_recursive = True\<rparr>
        [None, Some WatchdogShutdown] empty_world)))
   \<and> no_insert_after_start False
     (trace_of (fst (tricks_from example_resolver example_fs never_fails
        \<lparr>arg_files = [''extra.yml''], arg_python_path = ''.:src'', arg_recursive = True\<rparr>
        [None, Some WatchdogShutdown] empty_world)))"
proof -
  have h: "trace_of empty_world = []" by (simp add: empty_world_def)
  show ?thesis
    using search_path_inserts_precede_own_observer_start [OF h, of example_resolver example_fs
      never_fails "\<lparr>arg_files = [''extra.yml''], arg_python_path = ''.:src'',
        arg_recursive = True\<rparr>" "[None, Some WatchdogShutdown]"]
    by simp
qed

text \<open>
  The claim as first stated allows no insertion after the first start. With two
  configuration files, the second one bringing extra roots, these roots are inserted
  after the observer of the first file has been started.
\<close>

theorem search_path_mutated_after_start_counterexample:
  "trace_of (fst (tricks_from example_resolver example_fs never_fails
      \<lparr>arg_files = [''conf/ok.yml'', ''extra.yml''], arg_python_path = ''.'',
        arg_recursive = True\<rparr> [] empty_world))
   = [SysPathInsert Startup ''.'', ObserverCall 0 StartOp,
      SysPathInsert (ConfigFile 1) ''vendor'', SysPathInsert (ConfigFile 1) ''lib'',
      ObserverCall 1 StartOp]
   \<and> \<not> no_insert_after_start False
      [SysPathInsert Startup ''.'', ObserverCall 0 StartOp,
       SysPathInsert (ConfigFile 1) ''vendor'', SysPathInsert (ConfigFile 1) ''lib'',
       ObserverCall 1 StartOp]"
  by (simp add: tricks_from_def add_roots_def path_split_def pathsep_def add_to_sys_path_def
      py_insert_def process_file_def example_fs_def example_resolver_def example_loader_def
      logger_trick_def make_handler_def schedule_def trick_pathname_def py_or_def
      getattr_source_directory_def new_observer_def dir_path_of_def dirname_def
      never_fails_def teardown_def empty_world_def Let_def)

section \<open>Properties of the termination signals\<close>

lemma set_each_disposition:
  "disposition_of (set_each sigs d st) s = (if s \<in> set sigs then d else disposition_of st s)"
  by (induction sigs arbitrary: st) (auto simp: signal_signal_def)

lemma set_each_log:
  "sig_log (set_each sigs d st) = sig_log st @ map (\<lambda>s. SetDisposition s d) sigs"
  by (induction sigs arbitrary: st) (auto simp: signal_signal_def)

lemma deliver_ignored:
  "disposition_of st signum = SIG_IGN \<Longrightarrow> deliver signum st = (st, Discarded)"
  by (simp add: deliver_def)

lemma deliver_all_ignored:
  "\<forall>s\<in>set sigs. disposition_of st s = SIG_IGN \<Longrightarrow>
   deliver_all sigs st = (st, replicate (length sigs) Discarded)"
  by (induction sigs) (simp_all add: deliver_ignored)

text \<open>
  Claim C2. After the handlers are installed, the first termination signal delivered
  runs \<open>handler_termination_signal\<close>: it first sets every termination signal to be
  ignored and then raises \<^verbatim>\<open>WatchdogShutdown\<close>, in this order. From then on every
  termination signal is ignored, so each later delivery changes nothing and raises
  nothing: over the whole run the cancellation is raised exactly once. Deliveries are
  taken one after the other, each handler run finished before the next signal.
\<close>

theorem termination_signal_cancels_once:
  assumes "signum \<in> set termination_signals"
    and "set later \<subseteq> set termination_signals"
    and "deliver signum (install_handlers st) = (st1, r)"
  shows "r = RaisedInMain WatchdogShutdown
         \<and> sig_log st1 = sig_log (install_handlers st)
              @ map (\<lambda>s. SetDisposition s SIG_IGN) termination_signals @ [RaiseShutdown]
         \<and> (\<forall>s\<in>set termination_signals. disposition_of st1 s = SIG_IGN)
         \<and> (\<forall>s\<in>set termination_signals. deliver s st1 = (st1, Discarded))
         \<and> deliver_all (signum # later) (install_handlers st) =
              (st1, RaisedInMain WatchdogShutdown # replicate (length later) Discarded)
         \<and> shutdown_count (sig_log (fst (deliver_all (signum # later) (install_handlers st)))) =
              Suc (shutdown_count (sig_log st))"
proof -
  have d: "disposition_of (install_handlers st) signum = TerminationHandler"
    using assms(1) by (simp add: install_handlers_def set_each_disposition)
  with assms(3) have h: "handler_termination_signal (install_handlers st) = (st1, r)"
    by (simp add: deliver_def)
  then have r: "r = RaisedInMain WatchdogShutdown"
    and st1: "st1 = (set_each termination_signals SIG_IGN (install_handlers st))
        \<lparr>sig_log := sig_log (set_each termination_signals SIG_IGN (install_handlers st))
                     @ [RaiseShutdown]\<rparr>"
    by (auto simp: handler_termination_signal_def Let_def)
  have lg: "sig_log st1 = sig_log (install_handlers st)
              @ map (\<lambda>s. SetDisposition s SIG_IGN) termination_signals @ [RaiseShutdown]"
    by (simp add: st1 set_each_log)
  have ign: "\<forall>s\<in>set termination_signals. disposition_of st1 s = SIG_IGN"
    by (simp add: st1 set_each_disposition)
  then have noop: "\<forall>s\<in>set termination_signals. deliver s st1 = (st1, Discarded)"
    by (simp add: deliver_ignored)
  from ign assms(2) have "\<forall>s\<in>set later. disposition_of st1 s = SIG_IGN" by blast
  then have "deliver_all later st1 = (st1, replicate (length later) Discarded)"
    by (rule deliver_all_ignored)
  with assms(3) r have all: "deliver_all (signum # later) (install_handlers st) =
              (st1, RaisedInMain WatchdogShutdown # replicate (length later) Discarded)"
    by simp
  have "shutdown_count (sig_log st1) = Suc (shutdown_count (sig_log st))"
    by (simp add: lg shutdown_count_def install_handlers_def set_each_log)
  with all have cnt: "shutdown_count (sig_log (fst (deliver_all (signum # later)
      (install_handlers st)))) = Suc (shutdown_count (sig_log st))"
    by simp
  from r lg ign noop all cnt show ?thesis by blast
qed

theorem termination_signal_cancels_once_witness:
  "snd (deliver_all [SIGINT, SIGINT, SIGTERM] (install_handlers initial_signals)) =
     [RaisedInMain WatchdogShutdown, Discarded, Discarded]
   \<and> shutdown_count (sig_log (fst (deliver_all [SIGINT, SIGINT, SIGTERM]
        (install_handlers initial_signals)))) = 1"
proof -
  obtain st1 r where d: "deliver SIGINT (install_handlers initial_signals) = (st1, r)"
    by (cases "deliver SIGINT (install_handlers initial_signals)")
  have a: "SIGINT \<in> set termination_signals" by (simp add: termination_signals_def)
  have b: "set [SIGINT, SIGTERM] \<subseteq> set termination_signals"
    by (simp add: termination_signals_def)
  note t = termination_signal_cancels_once [OF a b d]
  from t have "deliver_all [SIGINT, SIGINT, SIGTERM] (install_handlers initial_signals) =
      (st1, RaisedInMain WatchdogShutdown # replicate (length [SIGINT, SIGTERM]) Discarded)"
    by blast
  then have all: "snd (deliver_all [SIGINT, SIGINT, SIGTERM] (install_handlers initial_signals)) =
      [RaisedInMain WatchdogShutdown, Discarded, Discarded]"
    by (simp del: deliver_all.simps)
  from t have "shutdown_count (sig_log (fst (deliver_all [SIGINT, SIGINT, SIGTERM]
      (install_handlers initial_signals)))) = Suc (shutdown_count (sig_log initial_signals))"
    by blast
  moreover have "shutdown_count (sig_log initial_signals) = 0"
    by (simp add: initial_signals_def shutdown_count_def)
  ultimately have "shutdown_count (sig_log (fst (deliver_all [SIGINT, SIGINT, SIGTERM]
      (install_handlers initial_signals)))) = 1"
    by (simp del: deliver_all.simps)
  with all show ?thesis by blast
qed

section \<open>Properties of the process supervisor\<close>


text \<open>
  What does hold for every value of \<open>kill_after\<close>, every behaviour of the children and
  every number of events: each state of a session has at most one running child and
  carries the command line, the stop signal and the \<open>kill_after\<close> value the command
  was given.
\<close>

lemma owns_running_le: "owns_running s \<Longrightarrow> length (sup_running s) \<le> 1"
  by (simp add: owns_running_def split: option.splits)

lemma keeps_setup_trans: "keeps_setup s x \<Longrightarrow> keeps_setup x y \<Longrightarrow> keeps_setup s y"
  by (simp add: keeps_setup_def)

lemma launch_keeps:
  "owns_running s \<Longrightarrow> sup_child s = None \<Longrightarrow> keeps_setup s (fst (launch env s))"
  by (simp add: launch_def owns_running_def keeps_setup_def Let_def)

lemma stop_steps_keeps:
  "owns_running s \<Longrightarrow> \<forall>x\<in>set (fst (stop_steps env s)). keeps_setup s x"
  by (auto simp: stop_steps_def owns_running_def keeps_setup_def Let_def
      split: option.splits kill_after_value.splits)

lemma stop_keeps:
  "owns_running s \<Longrightarrow>
   keeps_setup s (fst (stop env s))
   \<and> (snd (stop env s) = None \<longrightarrow> sup_child (fst (stop env s)) = None)"
  by (auto simp: stop_def stop_steps_def owns_running_def keeps_setup_def Let_def
      split: option.splits kill_after_value.splits)

lemma restart_on_event_inv:
  assumes "owns_running s" and "restart_on_event env s = (sts, s', r)"
  shows "keeps_setup s s' \<and> (\<forall>x\<in>set sts. keeps_setup s x)"
proof -
  obtain s1 r1 where st: "stop env s = (s1, r1)" by (cases "stop env s")
  from stop_keeps [OF assms(1), of env] st
  have k1: "keeps_setup s s1" and n1: "r1 = None \<longrightarrow> sup_child s1 = None"
    by simp_all
  note steps = stop_steps_keeps [OF assms(1), of env]
  show ?thesis
  proof (cases r1)
    case (Some e)
    with st assms(2) have "s' = s1" "sts = fst (stop_steps env s)"
      by (simp_all add: restart_on_event_def)
    with k1 steps show ?thesis by simp
  next
    case None
    with st assms(2) have l: "launch env s1 = (s', r)"
      and sts: "sts = fst (stop_steps env s) @ [s']"
      by (auto simp: restart_on_event_def split: prod.splits)
    from k1 have "owns_running s1" by (simp add: keeps_setup_def)
    from launch_keeps [OF this, of env] n1 None l have "keeps_setup s1 s'" by simp
    with k1 have "keeps_setup s s'" by (rule keeps_setup_trans)
    with steps sts show ?thesis by auto
  qed
qed

lemma handle_events_inv:
  "owns_running s \<Longrightarrow> handle_events env evs s = (sts, s', r) \<Longrightarrow>
   keeps_setup s s' \<and> (\<forall>x\<in>set sts. keeps_setup s x)"
proof (induction evs arbitrary: s sts s' r)
  case Nil
  then show ?case by (simp add: keeps_setup_def)
next
  case (Cons ev evs)
  obtain sts1 s1 r1 where re: "restart_on_event env s = (sts1, s1, r1)"
    by (cases "restart_on_event env s") auto
  from restart_on_event_inv [OF Cons.prems(1) re]
  have k1: "keeps_setup s s1" and b1: "\<forall>x\<in>set sts1. keeps_setup s x"
    by simp_all
  show ?case
  proof (cases r1)
    case (Some e)
    with re Cons.prems(2) k1 b1 show ?thesis by auto
  next
    case None
    obtain sts2 s2 r2 where he: "handle_events env evs s1 = (sts2, s2, r2)"
      by (cases "handle_events env evs s1") auto
    from k1 have "owns_running s1" by (simp add: keeps_setup_def)
    from Cons.IH [OF this he]
    have "keeps_setup s1 s2" and "\<forall>x\<in>set sts2. keeps_setup s1 x" by simp_all
    with k1 have "keeps_setup s s2" and "\<forall>x\<in>set sts2. keeps_setup s x"
      by (auto intro: keeps_setup_trans)
    with re None he Cons.prems(2) b1 show ?thesis by auto
  qed
qed

lemma auto_restart_session_keeps:
  "\<forall>x\<in>set (fst (auto_restart_session env command command_args stop_signal kill_after events)).
     keeps_setup (new_supervisor command command_args stop_signal kill_after) x"
proof -
  let ?s0 = "new_supervisor command command_args stop_signal kill_after"
  have o0: "owns_running ?s0" and n0: "sup_child ?s0 = None"
    by (simp_all add: new_supervisor_def owns_running_def)
  then have k0: "keeps_setup ?s0 ?s0" by (simp add: keeps_setup_def)
  obtain s1 r1 where st: "start env ?s0 = (s1, r1)" by (cases "start env ?s0")
  with n0 have l: "launch env ?s0 = (s1, r1)" by (simp add: start_def)
  from launch_keeps [OF o0 n0, of env] l have k1: "keeps_setup ?s0 s1" by simp
  then have o1: "owns_running s1" by (simp add: keeps_setup_def)
  show ?thesis
  proof (cases r1)
    case (Some e)
    with st k0 k1 show ?thesis by (simp add: auto_restart_session_def Let_def)
  next
    case None
    obtain sts s2 r2 where he: "handle_events env events s1 = (sts, s2, r2)"
      by (cases "handle_events env events s1") auto
    from handle_events_inv [OF o1 he]
    have "keeps_setup s1 s2" and "\<forall>x\<in>set sts. keeps_setup s1 x" by simp_all
    with k1 have k2: "keeps_setup ?s0 s2" and b: "\<forall>x\<in>set sts. keeps_setup ?s0 x"
      by (auto intro: keeps_setup_trans)
    from k2 have "owns_running s2" by (simp add: keeps_setup_def)
    from stop_steps_keeps [OF this, of env] k2
    have f: "\<forall>x\<in>set (fst (stop_steps env s2)). keeps_setup ?s0 x"
      by (auto intro: keeps_setup_trans)
    obtain final r' where ss: "stop_steps env s2 = (final, r')" by (cases "stop_steps env s2")
    with f have "\<forall>x\<in>set final. keeps_setup ?s0 x" by simp
    with st None he ss b k0 k1 show ?thesis
      by (auto simp: auto_restart_session_def Let_def)
  qed
qed

lemma auto_restart_session_one_child:
  "\<forall>x\<in>set (fst (auto_restart_session env command command_args stop_signal kill_after events)).
     length (sup_running x) \<le> 1 \<and> sup_command x = command # command_args
     \<and> sup_stop_signal x = stop_signal \<and> sup_kill_after x = kill_after"
proof
  fix x
  assume "x \<in> set (fst (auto_restart_session env command command_args stop_signal
      kill_after events))"
  with auto_restart_session_keeps
  have "keeps_setup (new_supervisor command command_args stop_signal kill_after) x"
    by blast
  then show "length (sup_running x) \<le> 1 \<and> sup_command x = command # command_args
     \<and> sup_stop_signal x = stop_signal \<and> sup_kill_after x = kill_after"
    using owns_running_le [of x] by (simp add: keeps_setup_def new_supervisor_def)
qed

text \<open>
  With a number of seconds as \<open>kill_after\<close>, a restart of a live child logs the stop
  signal, the bounded wait, the force-kill when the child has not exited in time, and
  then the launch of the same command line.
\<close>

lemma restart_log_with_seconds:
  assumes "sup_child s = Some pid" and "\<not> gone_early env pid"
    and "can_launch env (sup_next_pid s)" and "sup_kill_after s = Seconds limit"
  shows "sup_log (fst (snd (restart_on_event env s))) =
      sup_log s
      @ [SendStopSignal pid (sup_stop_signal s),
         WaitForExit pid (case exit_delay env pid of None \<Rightarrow> limit | Some d \<Rightarrow> min d limit)]
      @ (if (case exit_delay env pid of None \<Rightarrow> True | Some d \<Rightarrow> limit < d)
         then [ForceKill pid] else [])
      @ [Launch (sup_next_pid s) (sup_command s)]"
  using assms
  by (auto simp: restart_on_event_def stop_def stop_steps_def launch_def Let_def
      split: option.splits)

text \<open>
  With text as \<open>kill_after\<close>, a restart of a live child ends after the stop signal:
  the child stays owned and running, and nothing is launched.
\<close>

lemma restart_with_text_ends_after_signal:
  assumes "sup_child s = Some pid" and "\<not> gone_early env pid"
    and "sup_kill_after s = Unconverted text"
  shows "restart_on_event env s =
      ([s\<lparr>sup_log := sup_log s @ [SendStopSignal pid (sup_stop_signal s)]\<rparr>],
       s\<lparr>sup_log := sup_log s @ [SendStopSignal pid (sup_stop_signal s)]\<rparr>,
       Some (TypeError ''unsupported operand type(s) for +: float and str''))"
  using assms
  by (simp add: restart_on_event_def stop_def stop_steps_def Let_def)

end
